theory Spec2Isabelle
  imports Complex_Main
begin

section \<open>Channel pruning of a network graph (paddleslim/prune/pruner.py)\<close>

subsection \<open>Errors and Python helpers\<close>

text \<open>
  Every exception the source can raise is a value. \<open>IndexError (Some i)\<close> is numpy's
  "index i is out of bounds"; \<open>IndexError None\<close> is a list or tuple index out of range.
\<close>

datatype error =
    IndexError "int option"
  | ValueError
  | UnboundLocalError
  | TypeError
  | AttributeError
  | AssertionError
  | KeyError string
  | RecursionError

text \<open>Python 3 \<open>round\<close>: to the nearest integer, a tie to the even neighbour.\<close>

definition py_round :: "rat \<Rightarrow> int" where
  "py_round x =
     (let f = \<lfloor>x\<rfloor>; d = x - of_int f
      in if d < 1 / 2 then f
         else if 1 / 2 < d then f + 1
         else if even f then f else f + 1)"

text \<open>The slice \<open>xs[:k]\<close>: a negative \<open>k\<close> counts from the end.\<close>

definition py_slice_to :: "'a list \<Rightarrow> int \<Rightarrow> 'a list" where
  "py_slice_to xs k =
     (if 0 \<le> k then take (nat k) xs else take (nat (int (length xs) + k)) xs)"

text \<open>\<open>range(k)\<close> as a list of integers; empty for \<open>k \<le> 0\<close>.\<close>

definition py_range :: "int \<Rightarrow> int list" where
  "py_range k = map int [0..<nat k]"

subsection \<open>Dense arrays\<close>

text \<open>
  A numpy array is its shape and its elements in row-major order. Elements are floats in
  the source; here they are rationals with exact sums.
\<close>

record ndarray =
  shape :: "nat list"
  data :: "rat list"


text \<open>
  Seen from one axis, a row-major array of shape \<open>s\<close> is \<open>outer\<close> groups of \<open>n\<close> channels
  of \<open>inner\<close> consecutive elements each.
\<close>

definition outer_size :: "nat list \<Rightarrow> nat \<Rightarrow> nat" where
  "outer_size s axis = prod_list (take axis s)"

definition inner_size :: "nat list \<Rightarrow> nat \<Rightarrow> nat" where
  "inner_size s axis = prod_list (drop (Suc axis) s)"

definition block :: "ndarray \<Rightarrow> nat \<Rightarrow> nat \<Rightarrow> nat \<Rightarrow> rat list" where
  "block t axis o' i =
     (let n = shape t ! axis; inner = inner_size (shape t) axis
      in take inner (drop ((o' * n + i) * inner) (data t)))"

text \<open>All elements whose coordinate on \<open>axis\<close> is \<open>i\<close> (numpy's \<open>take(t, i, axis)\<close>, flattened).\<close>

definition channel :: "ndarray \<Rightarrow> nat \<Rightarrow> nat \<Rightarrow> rat list" where
  "channel t axis i =
     concat (map (\<lambda>o'. block t axis o' i) [0..<outer_size (shape t) axis])"

text \<open>\<open>np.sum(np.abs(param), axis=reduce_dims)\<close>: one score per channel of \<open>axis\<close>.\<close>

definition channel_l1 :: "ndarray \<Rightarrow> nat \<Rightarrow> nat \<Rightarrow> rat" where
  "channel_l1 param axis i = sum_list (map abs (channel param axis i))"

definition sum_abs :: "ndarray \<Rightarrow> nat \<Rightarrow> rat list" where
  "sum_abs param axis = map (channel_l1 param axis) [0..<shape param ! axis]"

text \<open>
  \<open>criterions.argsort()\<close>: the indices in ascending order of score. The sort is modelled
  as a stable one (insertion sort), so equal scores keep their index order.
\<close>

definition argsort :: "rat list \<Rightarrow> nat list" where
  "argsort xs = sort_key (\<lambda>i. xs ! i) [0..<length xs]"


subsection \<open>The pruner object\<close>

record pruner =
  criterion :: string
  pruned_list :: "string list list"

text \<open>
  \<open>Pruner.__init__\<close> stores the criterion and checks nothing. The attribute
  \<open>pruned_list\<close> is created by \<open>prune\<close>; before that it is modelled as the empty list.
\<close>

definition Pruner_init :: "string \<Rightarrow> error + pruner" where
  "Pruner_init c = Inr \<lparr>criterion = c, pruned_list = []\<rparr>"

subsection \<open>Channel selection and tensor pruning\<close>

text \<open>
  \<open>_cal_pruned_idx\<close>. \<open>param.shape[axis]\<close> raises for an axis beyond the rank; with a
  criterion other than \<open>l1_norm\<close> the local \<open>criterions\<close> is never bound and reading it
  raises.
\<close>

definition cal_pruned_idx :: "pruner \<Rightarrow> string \<Rightarrow> ndarray \<Rightarrow> rat \<Rightarrow> nat \<Rightarrow> error + int list" where
  "cal_pruned_idx self name param ratio axis =
     (if length (shape param) \<le> axis then Inl (IndexError None)
      else
        let prune_num = py_round (of_nat (shape param ! axis) * ratio)
        in if criterion self = ''l1_norm''
           then Inr (map int (py_slice_to (argsort (sum_abs param axis)) prune_num))
           else Inl UnboundLocalError)"

text \<open>A numpy index \<open>i\<close> into a dimension of size \<open>n\<close>: negative indices wrap once.\<close>

definition np_index :: "nat \<Rightarrow> int \<Rightarrow> nat" where
  "np_index n i = (if i < 0 then nat (i + int n) else nat i)"

definition out_of_bounds :: "nat \<Rightarrow> int \<Rightarrow> bool" where
  "out_of_bounds n i \<longleftrightarrow> i < - int n \<or> int n \<le> i"

text \<open>\<open>mask = np.zeros(n, dtype=bool); mask[pruned_idx] = True\<close>.\<close>

definition make_mask :: "nat \<Rightarrow> int list \<Rightarrow> error + bool list" where
  "make_mask n pruned_idx =
     (case find (out_of_bounds n) pruned_idx of
        Some i \<Rightarrow> Inl (IndexError (Some i))
      | None \<Rightarrow> Inr (foldl (\<lambda>m i. m[np_index n i := True]) (replicate n False) pruned_idx))"

text \<open>
  \<open>_prune_tensor\<close>. \<open>np.apply_along_axis\<close> runs the function on every one-dimensional
  lane along \<open>pruned_axis\<close> and refuses an array with no lane at all. \<open>func\<close> keeps the
  unmasked positions of a lane, \<open>lazy_func\<close> zeroes the masked ones; the result is
  written here block by block in row-major order.
\<close>

definition prune_tensor :: "ndarray \<Rightarrow> int list \<Rightarrow> nat \<Rightarrow> bool \<Rightarrow> error + ndarray" where
  "prune_tensor tensor pruned_idx pruned_axis lazy =
     (if length (shape tensor) \<le> pruned_axis then Inl (IndexError None)
      else
        let n = shape tensor ! pruned_axis;
            outer = outer_size (shape tensor) pruned_axis;
            inner = inner_size (shape tensor) pruned_axis
        in case make_mask n pruned_idx of
             Inl e \<Rightarrow> Inl e
           | Inr msk \<Rightarrow>
               if outer * inner = 0 then Inl ValueError
               else if lazy then
                 Inr \<lparr>shape = shape tensor,
                      data = concat (map (\<lambda>(o', i).
                                if msk ! i then replicate inner 0
                                else block tensor pruned_axis o' i)
                              (List.product [0..<outer] [0..<n]))\<rparr>
               else
                 let kept = filter (\<lambda>i. \<not> msk ! i) [0..<n]
                 in Inr \<lparr>shape = (shape tensor)[pruned_axis := length kept],
                         data = concat (map (\<lambda>(o', i). block tensor pruned_axis o' i)
                                  (List.product [0..<outer] kept))\<rparr>)"

subsection \<open>The program graph\<close>

text \<open>
  The graph classes (\<open>GraphWrapper\<close>, \<open>OpWrapper\<close>, \<open>VarWrapper\<close>) are imported by
  the pruner from \<open>..core\<close>. A variable is referred to by its unique name; two operator
  wrappers are equal when their \<open>idx\<close> are.
\<close>

text \<open>
  Modelled from the spec: the tensor of the graph (class \<open>VarWrapper\<close>), with its ordered
  shape and its flags. Shapes are integers, a dimension of the graph may be \<open>-1\<close>.
\<close>

record var_wrapper =
  var_shape :: "int list"
  is_parameter :: bool
  is_persistable :: bool

text \<open>
  Modelled from the spec: the operator node (class \<open>OpWrapper\<close>), with its identity, type
  tag, named input and output slots in order, the two classification flags and its
  integer attributes.
\<close>

record op_wrapper =
  idx :: nat
  op_type :: string
  inputs :: "(string \<times> string list) list"
  outputs :: "(string \<times> string list) list"
  is_bwd_op :: bool
  is_opt_op :: bool
  attrs :: "string \<rightharpoonup> int"

text \<open>Modelled from the spec: the graph (class \<open>GraphWrapper\<close>), operators in program order.\<close>

record graph_wrapper =
  ops :: "op_wrapper list"
  vars :: "string \<rightharpoonup> var_wrapper"

text \<open>Modelled from the spec: \<open>op.all_inputs()\<close> and \<open>op.all_outputs()\<close>, slot after slot.\<close>

definition all_inputs :: "op_wrapper \<Rightarrow> string list" where
  "all_inputs op = concat (map snd (inputs op))"

definition all_outputs :: "op_wrapper \<Rightarrow> string list" where
  "all_outputs op = concat (map snd (outputs op))"

text \<open>Modelled from the spec: \<open>op.inputs(name)\<close>, the variables of one named slot.\<close>

definition inputs_of :: "op_wrapper \<Rightarrow> string \<Rightarrow> string list" where
  "inputs_of op name = (case map_of (inputs op) name of None \<Rightarrow> [] | Some vs \<Rightarrow> vs)"

text \<open>
  Modelled from the spec: the adjacency queries \<open>graph.next_ops\<close> (the consumers of an
  operator's outputs) and \<open>graph.pre_ops\<close> (the producers of its inputs), in program order.
\<close>

definition next_ops :: "graph_wrapper \<Rightarrow> op_wrapper \<Rightarrow> op_wrapper list" where
  "next_ops graph op =
     filter (\<lambda>p. \<exists>v\<in>set (all_outputs op). v \<in> set (all_inputs p)) (ops graph)"

definition pre_ops :: "graph_wrapper \<Rightarrow> op_wrapper \<Rightarrow> op_wrapper list" where
  "pre_ops graph op =
     filter (\<lambda>p. \<exists>v\<in>set (all_inputs op). v \<in> set (all_outputs p)) (ops graph)"

text \<open>Modelled from the spec: \<open>var.outputs()\<close>, the consumer operators of a tensor.\<close>

definition var_outputs :: "graph_wrapper \<Rightarrow> string \<Rightarrow> op_wrapper list" where
  "var_outputs graph v = filter (\<lambda>p. v \<in> set (all_inputs p)) (ops graph)"

text \<open>
  Modelled from the spec: the flag queries \<open>graph.is_parameter\<close> and
  \<open>graph.is_persistable\<close>; a name without a variable has no flag.
\<close>

definition graph_is_parameter :: "graph_wrapper \<Rightarrow> string \<Rightarrow> bool" where
  "graph_is_parameter graph v = (case vars graph v of None \<Rightarrow> False | Some x \<Rightarrow> is_parameter x)"

definition graph_is_persistable :: "graph_wrapper \<Rightarrow> string \<Rightarrow> bool" where
  "graph_is_persistable graph v = (case vars graph v of None \<Rightarrow> False | Some x \<Rightarrow> is_persistable x)"

text \<open>Modelled from the spec: \<open>graph.get_param_by_op\<close>, the parameter inputs of an operator.\<close>

definition get_param_by_op :: "graph_wrapper \<Rightarrow> op_wrapper \<Rightarrow> string list" where
  "get_param_by_op graph op = filter (graph_is_parameter graph) (all_inputs op)"

text \<open>Modelled from the spec: \<open>var.set_shape\<close>, which changes the shape metadata only.\<close>

definition set_shape :: "graph_wrapper \<Rightarrow> string \<Rightarrow> int list \<Rightarrow> graph_wrapper" where
  "set_shape graph v new_shape =
     (case vars graph v of
        None \<Rightarrow> graph
      | Some x \<Rightarrow> graph\<lparr>vars := (vars graph)(v \<mapsto> x\<lparr>var_shape := new_shape\<rparr>)\<rparr>)"

text \<open>Modelled from the spec: \<open>op.set_attr\<close>.\<close>

definition set_attr :: "op_wrapper \<Rightarrow> string \<Rightarrow> int \<Rightarrow> op_wrapper" where
  "set_attr op name v = op\<lparr>attrs := (attrs op)(name \<mapsto> v)\<rparr>"

subsection \<open>Forward search\<close>

datatype node = VarNode string | OpNode op_wrapper

text \<open>
  \<open>_get_next_unvisited_op\<close>. The dictionary \<open>visited\<close> maps every operator index of the
  graph to a flag; it is modelled as the set of indices whose flag is true.
\<close>

definition get_next_unvisited_op :: "graph_wrapper \<Rightarrow> nat set \<Rightarrow> op_wrapper \<Rightarrow> op_wrapper list" where
  "get_next_unvisited_op graph visited top_op =
     filter (\<lambda>op. idx op \<notin> visited \<and> \<not> is_bwd_op op) (next_ops graph top_op)"

text \<open>
  The loop that appears three times in \<open>_forward_search_related_op\<close>: every operator of
  \<open>next_ops\<close> not visited yet is appended to the worklist and to the path, and marked.
\<close>

fun visit_all :: "op_wrapper list \<Rightarrow> nat set \<times> op_wrapper list \<times> op_wrapper list
                  \<Rightarrow> nat set \<times> op_wrapper list \<times> op_wrapper list" where
  "visit_all [] s = s"
| "visit_all (next_op # rest) (visited, stack, visit_path) =
     (if idx next_op \<notin> visited
      then visit_all rest (insert (idx next_op) visited, stack @ [next_op], visit_path @ [next_op])
      else visit_all rest (visited, stack, visit_path))"

definition is_boundary :: "op_wrapper \<Rightarrow> bool" where
  "is_boundary op \<longleftrightarrow> op_type op \<in> {''conv2d'', ''deformable_conv''} \<or> op_type op \<in> {''mul'', ''concat''}"

text \<open>The start of the search from a variable: one step per operator of the graph.\<close>

definition seed_step :: "graph_wrapper \<Rightarrow> string
    \<Rightarrow> nat set \<times> op_wrapper list \<times> op_wrapper list \<Rightarrow> op_wrapper
    \<Rightarrow> nat set \<times> op_wrapper list \<times> op_wrapper list" where
  "seed_step graph v s op =
     (case s of (visited, stack, visit_path) \<Rightarrow>
        if \<not> is_bwd_op op \<and> v \<in> set (all_inputs op)
        then visit_all (get_next_unvisited_op graph visited op)
               (insert (idx op) visited, stack, visit_path)
        else s)"

definition search_seeds :: "graph_wrapper \<Rightarrow> node \<Rightarrow> nat set \<times> op_wrapper list \<times> op_wrapper list" where
  "search_seeds graph n =
     (case n of
        VarNode v \<Rightarrow> foldl (seed_step graph v) ({}, [], []) (ops graph)
      | OpNode op \<Rightarrow> visit_all (get_next_unvisited_op graph {} op) ({}, [], []))"

text \<open>The \<open>while len(stack) > 0\<close> loop; \<open>stack.pop(0)\<close> takes the oldest entry.\<close>

function search_loop :: "graph_wrapper \<Rightarrow> nat set \<Rightarrow> op_wrapper list \<Rightarrow> op_wrapper list
                         \<Rightarrow> op_wrapper list" where
  "search_loop graph visited [] visit_path = visit_path"
| "search_loop graph visited (top_op # stack) visit_path =
     (if is_boundary top_op then search_loop graph visited stack visit_path
      else case visit_all (get_next_unvisited_op graph visited top_op) (visited, stack, visit_path) of
             (visited', stack', visit_path') \<Rightarrow> search_loop graph visited' stack' visit_path')"
  by pat_completeness auto

termination
proof (relation "measure (\<lambda>(graph, visited, stack, visit_path).
                   card (idx ` set (ops graph) - visited) + length stack)", goal_cases)
  case 1
  show ?case by simp
next
  case (2 graph visited top_op stack visit_path)
  show ?case by simp
next
  case (3 graph visited top_op stack visit_path visited' y stack' visit_path')
  have keep: "card (idx ` set (ops graph) - v') + length s' = card (idx ` set (ops graph) - v) + length s"
    if "set ns \<subseteq> set (ops graph)" "visit_all ns (v, s, p) = (v', s', p')"
    for ns v s p v' s' p'
    using that
  proof (induction ns arbitrary: v s p)
    case Nil
    then show ?case by simp
  next
    case (Cons a ns)
    show ?case
    proof (cases "idx a \<in> v")
      case True
      then show ?thesis using Cons by simp
    next
      case False
      have fin: "finite (idx ` set (ops graph) - v)" by simp
      have mem: "idx a \<in> idx ` set (ops graph) - v" using False Cons.prems(1) by auto
      have "idx ` set (ops graph) - insert (idx a) v = (idx ` set (ops graph) - v) - {idx a}" by auto
      then have "card (idx ` set (ops graph) - insert (idx a) v) = card (idx ` set (ops graph) - v) - 1"
        using mem fin by simp
      moreover have "0 < card (idx ` set (ops graph) - v)" using mem fin by (auto simp: card_gt_0_iff)
      moreover have "card (idx ` set (ops graph) - v') + length s'
                     = card (idx ` set (ops graph) - insert (idx a) v) + length (s @ [a])"
        using Cons.IH [of "insert (idx a) v" "s @ [a]" "p @ [a]"] Cons.prems False by simp
      ultimately show ?thesis by simp
    qed
  qed
  have "set (get_next_unvisited_op graph visited top_op) \<subseteq> set (ops graph)"
    by (auto simp: get_next_unvisited_op_def next_ops_def)
  moreover have "visit_all (get_next_unvisited_op graph visited top_op) (visited, stack, visit_path)
                 = (visited', stack', visit_path')"
    using 3(2,3) by simp
  ultimately have "card (idx ` set (ops graph) - visited') + length stack'
                   = card (idx ` set (ops graph) - visited) + length stack"
    by (rule keep)
  then show ?case by simp
qed

text \<open>\<open>_forward_search_related_op\<close>.\<close>

definition forward_search_related_op :: "graph_wrapper \<Rightarrow> node \<Rightarrow> op_wrapper list" where
  "forward_search_related_op graph n =
     (case search_seeds graph n of
        (visited, stack, visit_path) \<Rightarrow> search_loop graph visited stack visit_path)"

subsection \<open>The state of one pruning call\<close>

datatype log_entry =
    Pruning_error string error
  | Skip string
  | Pruning_param string

text \<open>
  \<open>param_backup\<close> receives a copy of the array, and in graph-only mode a copy of the
  shape.
\<close>

datatype backup = Shape_backup "int list" | Value_backup ndarray

text \<open>
  Everything the methods read and write: the pruner object with its registry
  \<open>pruned_list\<close>, the cloned graph, the scope of arrays by variable name, the two optional
  backup dictionaries and the log (errors and infos; debug lines are left out). The
  \<open>place\<close> argument only names a device and is left out. A raised exception is
  \<open>Inl\<close> of the error and the state at that moment.
\<close>

record prune_state =
  s_self :: pruner
  s_graph :: graph_wrapper
  s_scope :: "string \<rightharpoonup> ndarray"
  s_param_backup :: "(string \<rightharpoonup> backup) option"
  s_param_shape_backup :: "(string \<rightharpoonup> int list) option"
  s_log :: "log_entry list"

type_synonym 'a result = "error \<times> prune_state + 'a"

text \<open>\<open>self.pruned_list[axis]\<close>.\<close>

definition registry :: "prune_state \<Rightarrow> nat \<Rightarrow> string list result" where
  "registry st axis =
     (if axis < length (pruned_list (s_self st)) then Inr (pruned_list (s_self st) ! axis)
      else Inl (IndexError None, st))"

text \<open>\<open>self.pruned_list[axis].append(name)\<close>, reached only after \<open>registry\<close> succeeded.\<close>

definition registry_append :: "prune_state \<Rightarrow> nat \<Rightarrow> string \<Rightarrow> prune_state" where
  "registry_append st axis name =
     st\<lparr>s_self := (s_self st)\<lparr>pruned_list :=
           (pruned_list (s_self st))[axis := pruned_list (s_self st) ! axis @ [name]]\<rparr>\<rparr>"

text \<open>\<open>if param_backup is not None and name not in param_backup: param_backup[name] = ...\<close>\<close>

definition backup_value :: "prune_state \<Rightarrow> string \<Rightarrow> backup \<Rightarrow> prune_state" where
  "backup_value st name b =
     (case s_param_backup st of
        None \<Rightarrow> st
      | Some m \<Rightarrow> if m name = None then st\<lparr>s_param_backup := Some (m(name \<mapsto> b))\<rparr> else st)"

definition backup_shape :: "prune_state \<Rightarrow> string \<Rightarrow> int list \<Rightarrow> prune_state" where
  "backup_shape st name shp =
     (case s_param_shape_backup st of
        None \<Rightarrow> st
      | Some m \<Rightarrow> if m name = None then st\<lparr>s_param_shape_backup := Some (m(name \<mapsto> shp))\<rparr> else st)"

text \<open>
  \<open>_get_accumulator\<close>: the persistable outputs, other than the parameter itself, of the
  optimizer operators that read the parameter.
\<close>

definition get_accumulator :: "graph_wrapper \<Rightarrow> string \<Rightarrow> string list" where
  "get_accumulator graph param =
     concat (map (\<lambda>op. if is_opt_op op
                         then filter (\<lambda>out_var. graph_is_persistable graph out_var \<and> out_var \<noteq> param)
                                (all_outputs op)
                         else [])
               (var_outputs graph param))"

subsection \<open>Pruning a parameter group\<close>

text \<open>The graph-only loop of \<open>_prune_parameter_by_idx\<close> and \<open>_prune_filters_by_ratio\<close>.\<close>

fun shrink_shapes :: "string list \<Rightarrow> nat \<Rightarrow> int \<Rightarrow> prune_state \<Rightarrow> prune_state result" where
  "shrink_shapes [] pruned_axis pruned_num st = Inr st"
| "shrink_shapes (param # rest) pruned_axis pruned_num st =
     (case vars (s_graph st) param of
        None \<Rightarrow> Inl (AttributeError, st)
      | Some x \<Rightarrow>
          let ori_shape = var_shape x;
              st1 = backup_value st param (Shape_backup ori_shape)
          in if length ori_shape \<le> pruned_axis then Inl (IndexError None, st1)
             else
               let new_shape = ori_shape[pruned_axis := ori_shape ! pruned_axis - pruned_num];
                   st2 = st1\<lparr>s_graph := set_shape (s_graph st1) param new_shape\<rparr>;
                   st3 = registry_append st2 pruned_axis param
               in shrink_shapes rest pruned_axis pruned_num st3)"

text \<open>
  The part of both array loops after \<open>pruned_param\<close> is known: store it in the scope,
  back the shape up, set the pruned dimension of the graph shape, record the name.
\<close>

definition store_pruned :: "string \<Rightarrow> ndarray \<Rightarrow> nat \<Rightarrow> prune_state \<Rightarrow> prune_state result" where
  "store_pruned param pruned_param pruned_axis st =
     (let st1 = st\<lparr>s_scope := (s_scope st)(param \<mapsto> pruned_param)\<rparr>
      in case vars (s_graph st1) param of
           None \<Rightarrow> Inl (AttributeError, st1)
         | Some x \<Rightarrow>
             let st2 = backup_shape st1 param (var_shape x)
             in if length (shape pruned_param) \<le> pruned_axis \<or> length (var_shape x) \<le> pruned_axis
                then Inl (IndexError None, st2)
                else
                  let new_shape = (var_shape x)[pruned_axis := int (shape pruned_param ! pruned_axis)];
                      st3 = st2\<lparr>s_graph := set_shape (s_graph st2) param new_shape\<rparr>
                  in Inr (registry_append st3 pruned_axis param))"

text \<open>The array loop of \<open>_prune_parameter_by_idx\<close>: an exception of \<open>_prune_tensor\<close> is not caught.\<close>

fun prune_arrays :: "string list \<Rightarrow> int list \<Rightarrow> nat \<Rightarrow> bool \<Rightarrow> prune_state \<Rightarrow> prune_state result" where
  "prune_arrays [] pruned_idx pruned_axis lazy st = Inr st"
| "prune_arrays (param # rest) pruned_idx pruned_axis lazy st =
     (case s_scope st param of
        None \<Rightarrow> Inl (AttributeError, st)
      | Some param_t \<Rightarrow>
          let st1 = backup_value st param (Value_backup param_t)
          in case prune_tensor param_t pruned_idx pruned_axis lazy of
               Inl e \<Rightarrow> Inl (e, st1)
             | Inr pruned_param \<Rightarrow>
                 (case store_pruned param pruned_param pruned_axis st1 of
                    Inl e \<Rightarrow> Inl e
                  | Inr st2 \<Rightarrow> prune_arrays rest pruned_idx pruned_axis lazy st2))"

text \<open>\<open>_prune_parameter_by_idx\<close>; \<open>params\<close> is never empty at a call.\<close>

definition prune_parameter_by_idx ::
  "string list \<Rightarrow> int list \<Rightarrow> nat \<Rightarrow> bool \<Rightarrow> bool \<Rightarrow> prune_state \<Rightarrow> prune_state result" where
  "prune_parameter_by_idx params pruned_idx pruned_axis lazy only_graph st =
     (case params of
        [] \<Rightarrow> Inl (IndexError None, st)
      | p0 # _ \<Rightarrow>
          (case registry st pruned_axis of
             Inl e \<Rightarrow> Inl e
           | Inr names \<Rightarrow>
               if p0 \<in> set names then Inr st
               else if only_graph
               then shrink_shapes params pruned_axis (int (length pruned_idx)) st
               else prune_arrays params pruned_idx pruned_axis lazy st))"

text \<open>
  The array loop of \<open>_prune_filters_by_ratio\<close>. Only an \<open>IndexError\<close> of \<open>_prune_tensor\<close>
  is caught and logged; the loop body then goes on with the local \<open>pruned_param\<close> of the
  previous round, which is unbound in the first round.
\<close>

fun prune_arrays_logged ::
  "string list \<Rightarrow> int list \<Rightarrow> bool \<Rightarrow> ndarray option \<Rightarrow> prune_state \<Rightarrow> prune_state result" where
  "prune_arrays_logged [] pruned_idx lazy pruned_param st = Inr st"
| "prune_arrays_logged (param # rest) pruned_idx lazy pruned_param st =
     (case s_scope st param of
        None \<Rightarrow> Inl (AttributeError, st)
      | Some param_t \<Rightarrow>
          let st1 = backup_value st param (Value_backup param_t)
          in case (case prune_tensor param_t pruned_idx 0 lazy of
                     Inr p \<Rightarrow> Inr (Some p, st1)
                   | Inl (IndexError i) \<Rightarrow>
                       Inr (pruned_param,
                            st1\<lparr>s_log := s_log st1 @ [Pruning_error param (IndexError i)]\<rparr>)
                   | Inl e \<Rightarrow> Inl (e, st1)) of
               Inl e \<Rightarrow> Inl e
             | Inr (None, st2) \<Rightarrow> Inl (UnboundLocalError, st2)
             | Inr (Some p, st2) \<Rightarrow>
                 (case store_pruned param p 0 st2 of
                    Inl e \<Rightarrow> Inl e
                  | Inr st3 \<Rightarrow> prune_arrays_logged rest pruned_idx lazy (Some p) st3))"

text \<open>
  \<open>_prune_filters_by_ratio\<close>. It returns \<open>None\<close> for a registered name, \<open>range(pruned_num)\<close>
  in graph-only mode and the selected indices otherwise.
\<close>

definition prune_filters_by_ratio ::
  "string list \<Rightarrow> rat \<Rightarrow> bool \<Rightarrow> bool \<Rightarrow> prune_state \<Rightarrow> (int list option \<times> prune_state) result" where
  "prune_filters_by_ratio params ratio lazy only_graph st =
     (case params of
        [] \<Rightarrow> Inl (IndexError None, st)
      | p0 # _ \<Rightarrow>
          (case registry st 0 of
             Inl e \<Rightarrow> Inl e
           | Inr names \<Rightarrow>
               if p0 \<in> set names then Inr (None, st)
               else if only_graph then
                 (case vars (s_graph st) p0 of
                    None \<Rightarrow> Inl (AttributeError, st)
                  | Some x \<Rightarrow>
                      if var_shape x = [] then Inl (IndexError None, st)
                      else
                        let pruned_num = py_round (of_int (var_shape x ! 0) * ratio)
                        in case shrink_shapes params 0 pruned_num st of
                             Inl e \<Rightarrow> Inl e
                           | Inr st1 \<Rightarrow> Inr (Some (py_range pruned_num), st1))
               else
                 (case s_scope st p0 of
                    None \<Rightarrow> Inl (AttributeError, st)
                  | Some param_t \<Rightarrow>
                      (case cal_pruned_idx (s_self st) p0 param_t ratio 0 of
                         Inl e \<Rightarrow> Inl (e, st)
                       | Inr pruned_idx \<Rightarrow>
                           (case prune_arrays_logged params pruned_idx lazy None st of
                              Inl e \<Rightarrow> Inl e
                            | Inr st1 \<Rightarrow> Inr (Some pruned_idx, st1))))))"

subsection \<open>The per-operator rules\<close>

text \<open>
  \<open>for in_var in op.all_inputs(): if graph.is_parameter(in_var): ...\<close>, the loop of the
  convolution, depthwise convolution and bias rules.
\<close>

fun prune_param_inputs ::
  "string list \<Rightarrow> int list \<Rightarrow> nat \<Rightarrow> bool \<Rightarrow> bool \<Rightarrow> prune_state \<Rightarrow> prune_state result" where
  "prune_param_inputs [] pruned_idxs pruned_axis lazy only_graph st = Inr st"
| "prune_param_inputs (in_var # rest) pruned_idxs pruned_axis lazy only_graph st =
     (if graph_is_parameter (s_graph st) in_var
      then case prune_parameter_by_idx (in_var # get_accumulator (s_graph st) in_var)
                  pruned_idxs pruned_axis lazy only_graph st of
             Inl e \<Rightarrow> Inl e
           | Inr st1 \<Rightarrow> prune_param_inputs rest pruned_idxs pruned_axis lazy only_graph st1
      else prune_param_inputs rest pruned_idxs pruned_axis lazy only_graph st)"

text \<open>The fully-connected rule: the last parameter input and the last other input.\<close>

definition fc_operands :: "graph_wrapper \<Rightarrow> op_wrapper \<Rightarrow> string option \<times> string option" where
  "fc_operands graph op =
     foldl (\<lambda>(fc_input, fc_param) in_var.
              if graph_is_parameter graph in_var then (fc_input, Some in_var)
              else (Some in_var, fc_param))
       (None, None) (all_inputs op)"

text \<open>\<open>for i in pruned_idxs: idx += list(range_idx + i * feature_map_size)\<close>\<close>

definition expand_idxs :: "int \<Rightarrow> int list \<Rightarrow> int list" where
  "expand_idxs feature_map_size pruned_idxs =
     concat (map (\<lambda>i. map (\<lambda>r. r + i * feature_map_size) (py_range feature_map_size)) pruned_idxs)"

definition prune_mul ::
  "op_wrapper \<Rightarrow> int list \<Rightarrow> bool \<Rightarrow> bool \<Rightarrow> prune_state \<Rightarrow> prune_state result" where
  "prune_mul op pruned_idxs lazy only_graph st =
     (case fc_operands (s_graph st) op of
        (None, _) \<Rightarrow> Inl (AttributeError, st)
      | (Some fc_input, fc_param) \<Rightarrow>
          (case vars (s_graph st) fc_input of
             None \<Rightarrow> Inl (AttributeError, st)
           | Some x \<Rightarrow>
               if length (var_shape x) < 4 then Inl (IndexError None, st)
               else
                 let feature_map_size = var_shape x ! 2 * var_shape x ! 3;
                     corrected_idxs = expand_idxs feature_map_size pruned_idxs
                 in case fc_param of
                      None \<Rightarrow> Inl (AssertionError, st)
                    | Some w \<Rightarrow>
                        prune_parameter_by_idx (w # get_accumulator (s_graph st) w)
                          corrected_idxs 0 lazy only_graph st))"

text \<open>\<open>concat_inputs.index(out_var)\<close> for an \<open>out_var\<close> that occurs in the list.\<close>

definition index_of :: "'a list \<Rightarrow> 'a \<Rightarrow> nat" where
  "index_of xs x = length (takeWhile (\<lambda>y. y \<noteq> x) xs)"

text \<open>
  The concatenation rule looks through \<open>reversed(ops)\<close> for the first operator with an
  output among the inputs of the concatenation, and takes the position of that output.
\<close>

fun find_concat_idx :: "op_wrapper list \<Rightarrow> string list \<Rightarrow> nat option" where
  "find_concat_idx [] concat_inputs = None"
| "find_concat_idx (last_op # rest) concat_inputs =
     (case find (\<lambda>out_var. out_var \<in> set concat_inputs) (all_outputs last_op) of
        Some out_var \<Rightarrow> Some (index_of concat_inputs out_var)
      | None \<Rightarrow> find_concat_idx rest concat_inputs)"

text \<open>\<open>for ci in range(concat_idx): offset += concat_inputs[ci].shape()[1]\<close>\<close>

fun concat_offset :: "graph_wrapper \<Rightarrow> string list \<Rightarrow> int \<Rightarrow> error + int" where
  "concat_offset graph [] offset = Inr offset"
| "concat_offset graph (v # rest) offset =
     (case vars graph v of
        None \<Rightarrow> Inl AttributeError
      | Some x \<Rightarrow>
          if length (var_shape x) < 2 then Inl (IndexError None)
          else concat_offset graph rest (offset + var_shape x ! 1))"

definition concat_corrected_idxs ::
  "graph_wrapper \<Rightarrow> op_wrapper list \<Rightarrow> op_wrapper \<Rightarrow> int list \<Rightarrow> error + int list" where
  "concat_corrected_idxs graph ops' op pruned_idxs =
     (let concat_inputs = all_inputs op
      in case find_concat_idx (rev ops') concat_inputs of
           None \<Rightarrow> Inl TypeError
         | Some concat_idx \<Rightarrow>
             (case concat_offset graph (take concat_idx concat_inputs) 0 of
                Inl e \<Rightarrow> Inl e
              | Inr offset \<Rightarrow> Inr (map (\<lambda>x. x + offset) pruned_idxs)))"

text \<open>The batch-normalization rule: mean, variance, scale and shift, in this order.\<close>

fun prune_groups ::
  "string list \<Rightarrow> int list \<Rightarrow> bool \<Rightarrow> bool \<Rightarrow> prune_state \<Rightarrow> prune_state result" where
  "prune_groups [] pruned_idxs lazy only_graph st = Inr st"
| "prune_groups (v # rest) pruned_idxs lazy only_graph st =
     (case prune_parameter_by_idx (v # get_accumulator (s_graph st) v) pruned_idxs 0 lazy only_graph st of
        Inl e \<Rightarrow> Inl e
      | Inr st1 \<Rightarrow> prune_groups rest pruned_idxs lazy only_graph st1)"

definition prune_batch_norm ::
  "op_wrapper \<Rightarrow> int list \<Rightarrow> bool \<Rightarrow> bool \<Rightarrow> prune_state \<Rightarrow> prune_state result" where
  "prune_batch_norm op pruned_idxs lazy only_graph st =
     (case all_inputs op of
        beta # mean # alpha # variance # _ \<Rightarrow>
          prune_groups [mean, variance, alpha, beta] pruned_idxs lazy only_graph st
      | _ \<Rightarrow> Inl (IndexError None, st))"

text \<open>
  \<open>_prune_ops\<close>. \<open>ops'\<close> is the whole list the call was made with, the sixth argument
  is what is left of it. The concatenation rule calls \<open>_prune_ops\<close> again; \<open>depth\<close> is
  how many nested calls the interpreter still allows, and a call beyond it raises.
\<close>

fun prune_ops ::
  "nat \<Rightarrow> bool \<Rightarrow> bool \<Rightarrow> op_wrapper list \<Rightarrow> int list \<Rightarrow> op_wrapper list \<Rightarrow> prune_state
   \<Rightarrow> prune_state result" where
  "prune_ops depth lazy only_graph ops' pruned_idxs [] st = Inr st"
| "prune_ops depth lazy only_graph ops' pruned_idxs (op # rest) st =
     (case (if op_type op \<in> {''conv2d'', ''deformable_conv''}
            then prune_param_inputs (all_inputs op) pruned_idxs 1 lazy only_graph st
            else Inr st) of
        Inl e \<Rightarrow> Inl e
      | Inr st1 \<Rightarrow>
          (case (if op_type op = ''depthwise_conv2d''
                 then prune_param_inputs (all_inputs op) pruned_idxs 0 lazy only_graph st1
                 else if op_type op = ''elementwise_add''
                 then prune_param_inputs (all_inputs op) pruned_idxs 0 lazy only_graph st1
                 else if op_type op = ''mul''
                 then prune_mul op pruned_idxs lazy only_graph st1
                 else if op_type op = ''concat''
                 then (case concat_corrected_idxs (s_graph st1) ops' op pruned_idxs of
                         Inl e \<Rightarrow> Inl (e, st1)
                       | Inr corrected_idxs \<Rightarrow>
                           (case depth of
                              0 \<Rightarrow> Inl (RecursionError, st1)
                            | Suc d \<Rightarrow>
                                prune_ops d lazy only_graph
                                  (forward_search_related_op (s_graph st1) (OpNode op))
                                  corrected_idxs
                                  (forward_search_related_op (s_graph st1) (OpNode op)) st1))
                 else if op_type op = ''batch_norm''
                 then prune_batch_norm op pruned_idxs lazy only_graph st1
                 else Inr st1) of
             Inl e \<Rightarrow> Inl e
           | Inr st2 \<Rightarrow> prune_ops depth lazy only_graph ops' pruned_idxs rest st2))"

text \<open>
  \<open>_forward_pruning_ralated_params\<close>, called with a ratio or with explicit indices.
  \<open>_prune_filters_by_ratio\<close> returns no indices only for a registered name, which the
  first line has excluded; iterating over \<open>None\<close> would raise.
\<close>

definition forward_pruning_ralated_params ::
  "nat \<Rightarrow> string \<Rightarrow> rat option \<Rightarrow> int list option \<Rightarrow> bool \<Rightarrow> bool \<Rightarrow> prune_state
   \<Rightarrow> prune_state result" where
  "forward_pruning_ralated_params depth param ratio pruned_idxs lazy only_graph st =
     (case registry st 0 of
        Inl e \<Rightarrow> Inl e
      | Inr names \<Rightarrow>
          if param \<in> set names then Inr st
          else
            let related_ops = forward_search_related_op (s_graph st) (VarNode param);
                params = param # get_accumulator (s_graph st) param
            in case (case ratio of
                       None \<Rightarrow>
                         (case pruned_idxs of
                            None \<Rightarrow> Inl (AssertionError, st)
                          | Some idxs \<Rightarrow>
                              (case prune_parameter_by_idx params idxs 0 lazy only_graph st of
                                 Inl e \<Rightarrow> Inl e
                               | Inr st1 \<Rightarrow> Inr (Some idxs, st1)))
                     | Some r \<Rightarrow> prune_filters_by_ratio params r lazy only_graph st) of
                 Inl e \<Rightarrow> Inl e
               | Inr (None, st1) \<Rightarrow> Inl (TypeError, st1)
               | Inr (Some idxs, st1) \<Rightarrow>
                   (case depth of
                      0 \<Rightarrow> Inl (RecursionError, st1)
                    | Suc d \<Rightarrow> prune_ops d lazy only_graph related_ops idxs related_ops st1))"

subsection \<open>Brother operators\<close>

text \<open>The test \<open>sub in s\<close> on strings.\<close>

fun str_contains :: "string \<Rightarrow> string \<Rightarrow> bool" where
  "str_contains [] sub = (sub = [])"
| "str_contains (c # cs) sub = (take (length sub) (c # cs) = sub \<or> str_contains cs sub)"

text \<open>The condition under which \<open>_search_brother_ops\<close> walks on to an operator below.\<close>

definition walks_through :: "op_wrapper \<Rightarrow> bool" where
  "walks_through op \<longleftrightarrow>
     \<not> str_contains (op_type op) ''conv2d'' \<and> \<not> str_contains (op_type op) ''concat''
     \<and> \<not> str_contains (op_type op) ''deformable_conv'' \<and> op_type op \<noteq> ''fc''"

definition is_brother_type :: "op_wrapper \<Rightarrow> bool" where
  "is_brother_type op \<longleftrightarrow>
     str_contains (op_type op) ''conv2d'' \<or> str_contains (op_type op) ''deformable_conv''
     \<or> op_type op = ''fc''"

text \<open>The first loop: the operators below the start, with no test of \<open>visited\<close>.\<close>

fun brother_start :: "op_wrapper list \<Rightarrow> nat list \<times> op_wrapper list \<Rightarrow> nat list \<times> op_wrapper list" where
  "brother_start [] s = s"
| "brother_start (op # rest) (visited, stack) =
     (if walks_through op \<and> \<not> is_bwd_op op \<and> \<not> is_opt_op op
      then brother_start rest (visited @ [idx op], stack @ [op])
      else brother_start rest (visited, stack))"

text \<open>\<open>for parent in graph.pre_ops(top_op)\<close>\<close>

fun brother_parents :: "op_wrapper list \<Rightarrow> nat list \<times> op_wrapper list \<times> op_wrapper list
                        \<Rightarrow> nat list \<times> op_wrapper list \<times> op_wrapper list" where
  "brother_parents [] s = s"
| "brother_parents (parent # rest) (visited, stack, brothers) =
     (if idx parent \<notin> set visited \<and> \<not> is_bwd_op parent \<and> \<not> is_opt_op parent
      then if is_brother_type parent
           then brother_parents rest (visited @ [idx parent], stack, brothers @ [parent])
           else brother_parents rest (visited @ [idx parent], stack @ [parent], brothers)
      else brother_parents rest (visited, stack, brothers))"

text \<open>\<open>for child in graph.next_ops(top_op)\<close>\<close>

fun brother_children :: "op_wrapper list \<Rightarrow> nat list \<times> op_wrapper list \<times> op_wrapper list
                        \<Rightarrow> nat list \<times> op_wrapper list \<times> op_wrapper list" where
  "brother_children [] s = s"
| "brother_children (child # rest) (visited, stack, brothers) =
     (if walks_through child \<and> idx child \<notin> set visited \<and> \<not> is_bwd_op child \<and> \<not> is_opt_op child
      then brother_children rest (visited @ [idx child], stack @ [child], brothers)
      else brother_children rest (visited, stack, brothers))"

text \<open>The \<open>while len(stack) > 0\<close> loop; \<open>stack.pop()\<close> takes the newest entry.\<close>

function brother_loop :: "graph_wrapper \<Rightarrow> nat list \<Rightarrow> op_wrapper list \<Rightarrow> op_wrapper list
                          \<Rightarrow> op_wrapper list" where
  "brother_loop graph visited stack brothers =
     (if stack = [] then brothers
      else case brother_children (next_ops graph (last stack))
                  (brother_parents (pre_ops graph (last stack)) (visited, butlast stack, brothers)) of
             (visited', stack', brothers') \<Rightarrow> brother_loop graph visited' stack' brothers')"
  by pat_completeness auto
termination
proof (relation "measure (\<lambda>(graph, visited, stack, brothers).
                   card (idx ` set (ops graph) - set visited) + length stack)", goal_cases)
  case 1
  show ?case by simp
next
  case (2 graph visited stack brothers visited' y stack' brothers')
  let ?U = "idx ` set (ops graph)"
  have new: "card (?U - set (v @ [idx a])) + Suc n \<le> card (?U - set v) + n"
    if "a \<in> set (ops graph)" "idx a \<notin> set v" for a v n
  proof -
    have mem: "idx a \<in> ?U - set v" using that by auto
    have "?U - set (v @ [idx a]) = (?U - set v) - {idx a}" by auto
    then have "card (?U - set (v @ [idx a])) = card (?U - set v) - 1" using mem by simp
    moreover have "0 < card (?U - set v)" using mem by (auto simp: card_gt_0_iff)
    ultimately show ?thesis by simp
  qed
  have less: "card (?U - set (v @ [idx a])) \<le> card (?U - set v)" for a v
    by (rule card_mono) auto
  have par: "card (?U - set v') + length s' \<le> card (?U - set v) + length s"
    if "set ns \<subseteq> set (ops graph)" "brother_parents ns (v, s, b) = (v', s', b')"
    for ns v s b v' s' b'
    using that
  proof (induction ns arbitrary: v s b)
    case Nil
    then show ?case by simp
  next
    case (Cons a ns)
    show ?case
    proof (cases "idx a \<notin> set v \<and> \<not> is_bwd_op a \<and> \<not> is_opt_op a")
      case False
      then show ?thesis using Cons by auto
    next
      case True
      show ?thesis
      proof (cases "is_brother_type a")
        case True
        have "card (?U - set v') + length s' \<le> card (?U - set (v @ [idx a])) + length s"
          using Cons.IH [of "v @ [idx a]" s "b @ [a]"] Cons.prems True
            \<open>idx a \<notin> set v \<and> \<not> is_bwd_op a \<and> \<not> is_opt_op a\<close> by simp
        also have "\<dots> \<le> card (?U - set v) + length s" using less [of v a] by simp
        finally show ?thesis .
      next
        case False
        have "card (?U - set v') + length s' \<le> card (?U - set (v @ [idx a])) + length (s @ [a])"
          using Cons.IH [of "v @ [idx a]" "s @ [a]" b] Cons.prems False
            \<open>idx a \<notin> set v \<and> \<not> is_bwd_op a \<and> \<not> is_opt_op a\<close> by simp
        also have "\<dots> \<le> card (?U - set v) + length s"
          using new [of a v "length s"] Cons.prems(1)
            \<open>idx a \<notin> set v \<and> \<not> is_bwd_op a \<and> \<not> is_opt_op a\<close> by simp
        finally show ?thesis .
      qed
    qed
  qed
  have chi: "card (?U - set v') + length s' \<le> card (?U - set v) + length s"
    if "set ns \<subseteq> set (ops graph)" "brother_children ns (v, s, b) = (v', s', b')"
    for ns v s b v' s' b'
    using that
  proof (induction ns arbitrary: v s b)
    case Nil
    then show ?case by simp
  next
    case (Cons a ns)
    show ?case
    proof (cases "walks_through a \<and> idx a \<notin> set v \<and> \<not> is_bwd_op a \<and> \<not> is_opt_op a")
      case False
      then show ?thesis using Cons by auto
    next
      case True
      have "card (?U - set v') + length s' \<le> card (?U - set (v @ [idx a])) + length (s @ [a])"
        using Cons.IH [of "v @ [idx a]" "s @ [a]" b] Cons.prems True by simp
      also have "\<dots> \<le> card (?U - set v) + length s"
        using new [of a v "length s"] Cons.prems(1) True by simp
      finally show ?thesis .
    qed
  qed
  obtain v1 s1 b1 where p: "brother_parents (pre_ops graph (last stack)) (visited, butlast stack, brothers) = (v1, s1, b1)"
    by (cases "brother_parents (pre_ops graph (last stack)) (visited, butlast stack, brothers)") auto
  have c: "brother_children (next_ops graph (last stack)) (v1, s1, b1) = (visited', stack', brothers')"
    using 2(2,3) p by simp
  have "card (?U - set visited') + length stack' \<le> card (?U - set v1) + length s1"
    using c by (intro chi [of "next_ops graph (last stack)"]) (auto simp: next_ops_def)
  also have "\<dots> \<le> card (?U - set visited) + length (butlast stack)"
    using p by (intro par [of "pre_ops graph (last stack)"]) (auto simp: pre_ops_def)
  also have "\<dots> < card (?U - set visited) + length stack" using 2(1) by simp
  finally show ?case by simp
qed

text \<open>\<open>_search_brother_ops\<close>.\<close>

definition search_brother_ops :: "graph_wrapper \<Rightarrow> op_wrapper \<Rightarrow> op_wrapper list" where
  "search_brother_ops graph op_node =
     (case brother_start (next_ops graph op_node) ([idx op_node], []) of
        (visited, stack) \<Rightarrow> brother_loop graph visited stack [])"

subsection \<open>The pruning call\<close>

text \<open>\<open>for p in graph.get_param_by_op(broher): self._forward_pruning_ralated_params(...)\<close>\<close>

fun prune_each_param ::
  "nat \<Rightarrow> string list \<Rightarrow> rat \<Rightarrow> bool \<Rightarrow> bool \<Rightarrow> prune_state \<Rightarrow> prune_state result" where
  "prune_each_param depth [] ratio lazy only_graph st = Inr st"
| "prune_each_param depth (p # rest) ratio lazy only_graph st =
     (case forward_pruning_ralated_params depth p (Some ratio) None lazy only_graph st of
        Inl e \<Rightarrow> Inl e
      | Inr st1 \<Rightarrow> prune_each_param depth rest ratio lazy only_graph st1)"

text \<open>\<open>for broher in brother_ops\<close>\<close>

fun prune_brothers ::
  "nat \<Rightarrow> op_wrapper list \<Rightarrow> rat \<Rightarrow> bool \<Rightarrow> bool \<Rightarrow> prune_state \<Rightarrow> prune_state result" where
  "prune_brothers depth [] ratio lazy only_graph st = Inr st"
| "prune_brothers depth (broher # rest) ratio lazy only_graph st =
     (case prune_each_param depth (get_param_by_op (s_graph st) broher) ratio lazy only_graph st of
        Inl e \<Rightarrow> Inl e
      | Inr st1 \<Rightarrow> prune_brothers depth rest ratio lazy only_graph st1)"

text \<open>\<open>for op in ops\<close>, over the consumers of the requested parameter.\<close>

fun prune_consumers ::
  "nat \<Rightarrow> op_wrapper list \<Rightarrow> rat \<Rightarrow> bool \<Rightarrow> bool \<Rightarrow> prune_state \<Rightarrow> prune_state result" where
  "prune_consumers depth [] ratio lazy only_graph st = Inr st"
| "prune_consumers depth (op # rest) ratio lazy only_graph st =
     (if op_type op \<in> {''conv2d'', ''deformable_conv''}
      then case prune_brothers depth (search_brother_ops (s_graph st) op) ratio lazy only_graph st of
             Inl e \<Rightarrow> Inl e
           | Inr st1 \<Rightarrow> prune_consumers depth rest ratio lazy only_graph st1
      else prune_consumers depth rest ratio lazy only_graph st)"

text \<open>
  The loop of \<open>_prune_parameters\<close> over \<open>zip(params, ratios)\<close>. Modelled from the spec:
  \<open>graph.var(param)\<close> of an unknown name is a lookup error, here \<open>KeyError\<close>.
\<close>

fun prune_requests ::
  "nat \<Rightarrow> (string \<times> rat) list \<Rightarrow> bool \<Rightarrow> bool \<Rightarrow> prune_state \<Rightarrow> prune_state result" where
  "prune_requests depth [] lazy only_graph st = Inr st"
| "prune_requests depth ((param, ratio) # rest) lazy only_graph st =
     (case registry st 0 of
        Inl e \<Rightarrow> Inl e
      | Inr names \<Rightarrow>
          if param \<in> set names
          then prune_requests depth rest lazy only_graph (st\<lparr>s_log := s_log st @ [Skip param]\<rparr>)
          else
            let st1 = st\<lparr>s_log := s_log st @ [Pruning_param param]\<rparr>
            in if vars (s_graph st1) param = None then Inl (KeyError param, st1)
               else case forward_pruning_ralated_params depth param (Some ratio) None lazy only_graph st1 of
                      Inl e \<Rightarrow> Inl e
                    | Inr st2 \<Rightarrow>
                        (case prune_consumers depth (var_outputs (s_graph st2) param) ratio
                                lazy only_graph st2 of
                           Inl e \<Rightarrow> Inl e
                         | Inr st3 \<Rightarrow> prune_requests depth rest lazy only_graph st3))"

text \<open>\<open>_prune_parameters\<close>.\<close>

definition prune_parameters ::
  "nat \<Rightarrow> string list \<Rightarrow> rat list \<Rightarrow> bool \<Rightarrow> bool \<Rightarrow> prune_state \<Rightarrow> prune_state result" where
  "prune_parameters depth params ratios lazy only_graph st =
     (if length params \<noteq> length ratios then Inl (AssertionError, st)
      else prune_requests depth (zip params ratios) lazy only_graph
             (st\<lparr>s_self := (s_self st)\<lparr>pruned_list := [[], []]\<rparr>\<rparr>))"

text \<open>
  The last loop of \<open>prune\<close>: every depthwise convolution gets the first dimension of its
  filter as \<open>groups\<close>. On an exception the operators before the failing one are changed.
\<close>

definition filter_channels :: "(string \<rightharpoonup> var_wrapper) \<Rightarrow> op_wrapper \<Rightarrow> error + int" where
  "filter_channels vs op =
     (case inputs_of op ''Filter'' of
        [] \<Rightarrow> Inl (IndexError None)
      | f # _ \<Rightarrow>
          (case vs f of
             None \<Rightarrow> Inl AttributeError
           | Some x \<Rightarrow> (case var_shape x of [] \<Rightarrow> Inl (IndexError None) | n # _ \<Rightarrow> Inr n)))"

fun fix_groups :: "(string \<rightharpoonup> var_wrapper) \<Rightarrow> op_wrapper list \<Rightarrow> error \<times> op_wrapper list + op_wrapper list" where
  "fix_groups vs [] = Inr []"
| "fix_groups vs (op # rest) =
     (if op_type op = ''depthwise_conv2d'' \<or> op_type op = ''depthwise_conv2d_grad''
      then case filter_channels vs op of
             Inl e \<Rightarrow> Inl (e, op # rest)
           | Inr n \<Rightarrow>
               (case fix_groups vs rest of
                  Inl (e, rest') \<Rightarrow> Inl (e, set_attr op ''groups'' n # rest')
                | Inr rest' \<Rightarrow> Inr (set_attr op ''groups'' n # rest'))
      else case fix_groups vs rest of
             Inl (e, rest') \<Rightarrow> Inl (e, op # rest')
           | Inr rest' \<Rightarrow> Inr (op # rest'))"

text \<open>
  The objects a caller of \<open>prune\<close> can hold: the pruner, the programs by reference (the
  position in the store), the scope and the log. \<open>program.clone()\<close> adds a program to the
  store, a copy of the one it is called on.
\<close>

record world =
  w_self :: pruner
  w_programs :: "graph_wrapper list"
  w_scope :: "string \<rightharpoonup> ndarray"
  w_log :: "log_entry list"

definition world_of :: "world \<Rightarrow> prune_state \<Rightarrow> world" where
  "world_of w st =
     \<lparr>w_self = s_self st, w_programs = w_programs w @ [s_graph st],
      w_scope = s_scope st, w_log = s_log st\<rparr>"

text \<open>
  \<open>prune\<close>: the world after the call, and the exception or the returned triple (the
  reference of the pruned program and the two backups).
\<close>

definition prune ::
  "world \<Rightarrow> nat \<Rightarrow> string list \<Rightarrow> rat list \<Rightarrow> nat \<Rightarrow> bool \<Rightarrow> bool \<Rightarrow> bool \<Rightarrow> bool
   \<Rightarrow> world \<times> (error + nat \<times> (string \<rightharpoonup> backup) option \<times> (string \<rightharpoonup> int list) option)" where
  "prune w program params ratios depth lazy only_graph param_backup param_shape_backup =
     (let self0 = (w_self w)\<lparr>pruned_list := []\<rparr>
      in if length (w_programs w) \<le> program then (w\<lparr>w_self := self0\<rparr>, Inl AttributeError)
         else
           let st = \<lparr>s_self = self0, s_graph = w_programs w ! program, s_scope = w_scope w,
                     s_param_backup = (if param_backup then Some Map.empty else None),
                     s_param_shape_backup = (if param_shape_backup then Some Map.empty else None),
                     s_log = w_log w\<rparr>
           in case prune_parameters depth params ratios lazy only_graph st of
                Inl (e, st1) \<Rightarrow> (world_of w st1, Inl e)
              | Inr st1 \<Rightarrow>
                  (case fix_groups (vars (s_graph st1)) (ops (s_graph st1)) of
                     Inl (e, ops1) \<Rightarrow>
                       (world_of w (st1\<lparr>s_graph := (s_graph st1)\<lparr>ops := ops1\<rparr>\<rparr>), Inl e)
                   | Inr ops1 \<Rightarrow>
                       (world_of w (st1\<lparr>s_graph := (s_graph st1)\<lparr>ops := ops1\<rparr>\<rparr>),
                        Inr (length (w_programs w), s_param_backup st1, s_param_shape_backup st1))))"

subsection \<open>Notions for the statements\<close>








subsection \<open>Example graphs\<close>

text \<open>Small graphs, states and worlds on which the functions are run.\<close>

definition example_op :: "nat \<Rightarrow> string \<Rightarrow> (string \<times> string list) list
    \<Rightarrow> (string \<times> string list) list \<Rightarrow> op_wrapper" where
  "example_op i t ins outs =
     \<lparr>idx = i, op_type = t, inputs = ins, outputs = outs,
      is_bwd_op = False, is_opt_op = False, attrs = Map.empty\<rparr>"

definition activation :: "int list \<Rightarrow> var_wrapper" where
  "activation s = \<lparr>var_shape = s, is_parameter = False, is_persistable = False\<rparr>"

definition parameter :: "int list \<Rightarrow> var_wrapper" where
  "parameter s = \<lparr>var_shape = s, is_parameter = True, is_persistable = True\<rparr>"



definition fc_graph :: graph_wrapper where
  "fc_graph =
     \<lparr>ops = [example_op 0 ''conv2d'' [(''Filter'', [''w'']), (''Input'', [''x''])] [(''Output'', [''a''])],
             example_op 1 ''relu'' [(''X'', [''a''])] [(''Out'', [''b''])],
             example_op 2 ''mul'' [(''X'', [''b'']), (''Y'', [''fc_w''])] [(''Out'', [''c''])]],
      vars = map_of [(''x'', activation [-1, 1, 3, 3]), (''w'', parameter [3, 1, 1, 1]),
                     (''a'', activation [-1, 3, 3, 3]), (''b'', activation [-1, 3, 3, 3]),
                     (''fc_w'', parameter [27, 2]), (''c'', activation [-1, 2])]\<rparr>"

definition fc_state :: prune_state where
  "fc_state =
     \<lparr>s_self = \<lparr>criterion = ''l1_norm'', pruned_list = [[], []]\<rparr>,
      s_graph = fc_graph,
      s_scope = map_of [(''w'', \<lparr>shape = [3, 1, 1, 1], data = [1, 5, 2]\<rparr>),
                        (''fc_w'', \<lparr>shape = [27, 2], data = map of_nat [0..<54]\<rparr>)],
      s_param_backup = None, s_param_shape_backup = None, s_log = []\<rparr>"

definition fc_mul_op :: op_wrapper where
  "fc_mul_op = example_op 2 ''mul'' [(''X'', [''b'']), (''Y'', [''fc_w''])] [(''Out'', [''c''])]"

definition concat_graph :: graph_wrapper where
  "concat_graph =
     \<lparr>ops = [example_op 0 ''conv2d'' [(''Filter'', [''wa'']), (''Input'', [''x''])] [(''Output'', [''a''])],
             example_op 1 ''conv2d'' [(''Filter'', [''wb'']), (''Input'', [''x''])] [(''Output'', [''b_raw''])],
             example_op 2 ''relu'' [(''X'', [''b_raw''])] [(''Out'', [''b''])],
             example_op 3 ''conv2d'' [(''Filter'', [''wc'']), (''Input'', [''x''])] [(''Output'', [''c''])],
             example_op 4 ''concat'' [(''X'', [''a'', ''b'', ''c''])] [(''Out'', [''cat''])],
             example_op 5 ''conv2d'' [(''Filter'', [''wd'']), (''Input'', [''cat''])] [(''Output'', [''d''])]],
      vars = map_of [(''x'', activation [-1, 3, 8, 8]), (''wa'', parameter [4, 3, 1, 1]),
                     (''wb'', parameter [6, 3, 1, 1]), (''wc'', parameter [5, 3, 1, 1]),
                     (''a'', activation [-1, 4, 8, 8]), (''b_raw'', activation [-1, 6, 8, 8]),
                     (''b'', activation [-1, 6, 8, 8]), (''c'', activation [-1, 5, 8, 8]),
                     (''cat'', activation [-1, 15, 8, 8]), (''wd'', parameter [1, 15, 1, 1]),
                     (''d'', activation [-1, 1, 8, 8])]\<rparr>"

definition concat_state :: prune_state where
  "concat_state =
     \<lparr>s_self = \<lparr>criterion = ''l1_norm'', pruned_list = [[], []]\<rparr>,
      s_graph = concat_graph,
      s_scope = map_of [(''wb'', \<lparr>shape = [6, 1, 1, 1], data = [10, 11, 12, 13, 14, 15]\<rparr>),
                        (''wd'', \<lparr>shape = [1, 15, 1, 1],
                                  data = [0, 1, 2, 3, 4, 5, 6, 7, 8, 9, 10, 11, 12, 13, 14]\<rparr>)],
      s_param_backup = None, s_param_shape_backup = None, s_log = []\<rparr>"




definition depthwise_graph :: graph_wrapper where
  "depthwise_graph =
     \<lparr>ops = [example_op 0 ''conv2d'' [(''Filter'', [''w'']), (''Input'', [''x''])] [(''Output'', [''a''])],
             (example_op 1 ''depthwise_conv2d'' [(''Filter'', [''dw'']), (''Input'', [''a''])]
                [(''Output'', [''b''])])\<lparr>attrs := [''groups'' \<mapsto> 4]\<rparr>],
      vars = map_of [(''x'', activation [-1, 1, 8, 8]), (''w'', parameter [4, 1, 1, 1]),
                     (''a'', activation [-1, 4, 8, 8]), (''dw'', parameter [4, 1, 1, 1]),
                     (''b'', activation [-1, 4, 8, 8])]\<rparr>"

definition depthwise_world :: world where
  "depthwise_world =
     \<lparr>w_self = \<lparr>criterion = ''l1_norm'', pruned_list = []\<rparr>,
      w_programs = [depthwise_graph],
      w_scope = map_of [(''w'', \<lparr>shape = [4, 1, 1, 1], data = [5, 1, 7, 2]\<rparr>),
                        (''dw'', \<lparr>shape = [4, 1, 1, 1], data = [10, 11, 12, 13]\<rparr>)],
      w_log = []\<rparr>"




section \<open>Properties\<close>

subsection \<open>Channel selection\<close>



















subsection \<open>Tensor pruning\<close>

































subsection \<open>Forward search\<close>




















subsection \<open>Construction, and the fully-connected rule\<close>

text \<open>
  Claim C8, as the code has it. \<open>Pruner.__init__\<close> accepts every criterion string and
  stores it. With a criterion other than \<open>l1_norm\<close> it is \<open>_cal_pruned_idx\<close> that raises,
  when selection is invoked on an axis of the array; with \<open>l1_norm\<close> selection returns
  indices.
\<close>

theorem criterion_checked_at_selection:
  "\<exists>p. Pruner_init c = Inr p \<and> criterion p = c
       \<and> (c \<noteq> ''l1_norm'' \<longrightarrow> axis < length (shape param) \<longrightarrow>
            cal_pruned_idx p name param ratio axis = Inl UnboundLocalError)
       \<and> (c = ''l1_norm'' \<longrightarrow> axis < length (shape param) \<longrightarrow>
            (\<exists>sel. cal_pruned_idx p name param ratio axis = Inr sel))"
  by (simp add: Pruner_init_def cal_pruned_idx_def Let_def)

theorem criterion_checked_at_selection_witness:
  "\<exists>p. Pruner_init ''l2_norm'' = Inr p \<and> criterion p = ''l2_norm''
       \<and> cal_pruned_idx p ''w'' \<lparr>shape = [3], data = [2, 3, 1]\<rparr> (2 / 3) 0 = Inl UnboundLocalError"
  using criterion_checked_at_selection [of "''l2_norm''" 0 "\<lparr>shape = [3], data = [2, 3, 1]\<rparr>" "''w''" "2 / 3"]
  by simp

text \<open>Construction with the unsupported criterion \<open>l2_norm\<close> returns a pruner.\<close>

theorem Pruner_init_accepts_unknown_criterion:
  "Pruner_init ''l2_norm'' = Inr \<lparr>criterion = ''l2_norm'', pruned_list = []\<rparr>"
  by (simp add: Pruner_init_def)

lemma shifted_range: "map (\<lambda>r. r + a) (py_range s) = [a..a + s - 1]"
proof (rule nth_equalityI)
  show "length (map (\<lambda>r. r + a) (py_range s)) = length [a..a + s - 1]"
    by (simp add: py_range_def)
next
  fix k assume "k < length (map (\<lambda>r. r + a) (py_range s))"
  then have k: "k < nat s" by (simp add: py_range_def)
  then have "a + int k \<le> a + s - 1" by linarith
  then have "[a..a + s - 1] ! k = a + int k" by (rule nth_upto)
  then show "map (\<lambda>r. r + a) (py_range s) ! k = [a..a + s - 1] ! k"
    using k by (simp add: py_range_def)
qed

lemma expand_idxs_ranges:
  "expand_idxs s idxs = concat (map (\<lambda>i. [i * s..(i + 1) * s - 1]) idxs)"
proof -
  have "map (\<lambda>r. r + i * s) (py_range s) = [i * s..(i + 1) * s - 1]" for i
    using shifted_range [of "i * s" s] by (simp add: algebra_simps)
  then show ?thesis by (simp add: expand_idxs_def)
qed

lemma set_expand_idxs: "set (expand_idxs s idxs) = (\<Union>i\<in>set idxs. {i * s..<(i + 1) * s})"
proof -
  have "{i * s..(i + 1) * s - 1} = {i * s..<(i + 1) * s}" for i by auto
  then show ?thesis by (simp add: expand_idxs_ranges)
qed

lemma prune_mul_expand:
  assumes "fc_operands (s_graph st) op = (Some fc_input, Some fc_param)"
    and "vars (s_graph st) fc_input = Some x" and "4 \<le> length (var_shape x)"
  shows "prune_mul op idxs lazy only_graph st =
         prune_parameter_by_idx (fc_param # get_accumulator (s_graph st) fc_param)
           (expand_idxs (var_shape x ! 2 * var_shape x ! 3) idxs) 0 lazy only_graph st"
  using assms by (simp add: prune_mul_def Let_def)

text \<open>
  Claim C5. At a \<open>mul\<close> operator with a parameter input and a feature-map input of rank
  at least four, \<open>_prune_ops\<close> prunes the weight (with its accumulators) at axis 0, with
  the incoming indices expanded: each index \<open>i\<close> becomes the run from \<open>i * S\<close> up to but
  not including \<open>(i + 1) * S\<close>, where \<open>S\<close> idxs the product of the last two dimensions of
  the feature map.
\<close>

theorem mul_rule_expands_channels:
  assumes "op_type op = ''mul''"
    and "fc_operands (s_graph st) op = (Some fc_input, Some fc_param)"
    and "vars (s_graph st) fc_input = Some x" and "4 \<le> length (var_shape x)"
  shows "prune_ops depth lazy only_graph ops' idxs (op # rest) st =
           (case prune_parameter_by_idx (fc_param # get_accumulator (s_graph st) fc_param)
                   (expand_idxs (var_shape x ! 2 * var_shape x ! 3) idxs) 0 lazy only_graph st of
              Inl e \<Rightarrow> Inl e
            | Inr st2 \<Rightarrow> prune_ops depth lazy only_graph ops' idxs rest st2)
         \<and> expand_idxs (var_shape x ! 2 * var_shape x ! 3) idxs
             = concat (map (\<lambda>i. [i * (var_shape x ! 2 * var_shape x ! 3)
                                   ..(i + 1) * (var_shape x ! 2 * var_shape x ! 3) - 1]) idxs)
         \<and> set (expand_idxs (var_shape x ! 2 * var_shape x ! 3) idxs)
             = (\<Union>i\<in>set idxs. {i * (var_shape x ! 2 * var_shape x ! 3)
                                 ..<(i + 1) * (var_shape x ! 2 * var_shape x ! 3)})"
proof -
  have "prune_ops depth lazy only_graph ops' idxs (op # rest) st =
           (case prune_mul op idxs lazy only_graph st of
              Inl e \<Rightarrow> Inl e
            | Inr st2 \<Rightarrow> prune_ops depth lazy only_graph ops' idxs rest st2)"
    using assms(1) by simp
  then show ?thesis
    using prune_mul_expand [OF assms(2,3,4)] expand_idxs_ranges set_expand_idxs by simp
qed

lemma sum_case_id: "(case x of Inl e \<Rightarrow> Inl e | Inr s \<Rightarrow> Inr s) = x"
  by (cases x) simp_all

lemma fc_graph_vars:
  "vars fc_graph ''b'' = Some (activation [-1, 3, 3, 3])"
  "vars fc_graph ''fc_w'' = Some (parameter [27, 2])"
  by (simp_all add: fc_graph_def)

lemma fc_graph_operands: "fc_operands (s_graph fc_state) fc_mul_op = (Some ''b'', Some ''fc_w'')"
  by (simp add: fc_state_def fc_operands_def fc_mul_op_def example_op_def all_inputs_def
      graph_is_parameter_def fc_graph_vars activation_def parameter_def)

lemma fc_graph_accumulator: "get_accumulator (s_graph fc_state) ''fc_w'' = []"
  by (simp add: fc_state_def get_accumulator_def var_outputs_def fc_graph_def example_op_def
      all_inputs_def)

theorem mul_rule_expands_channels_witness:
  "prune_ops 3 False False [fc_mul_op] [0, 2] [fc_mul_op] fc_state
     = prune_parameter_by_idx [''fc_w'']
         [0, 1, 2, 3, 4, 5, 6, 7, 8, 18, 19, 20, 21, 22, 23, 24, 25, 26] 0 False False fc_state
   \<and> (case prune_ops 3 False False [fc_mul_op] [0, 2] [fc_mul_op] fc_state of
         Inl e \<Rightarrow> None
       | Inr st \<Rightarrow> s_scope st ''fc_w'')
       = Some \<lparr>shape = [9, 2], data = [18, 19, 20, 21, 22, 23, 24, 25, 26, 27, 28, 29, 30, 31, 32, 33, 34, 35]\<rparr>"
proof -
  have t: "op_type fc_mul_op = ''mul''" by (simp add: fc_mul_op_def example_op_def)
  have v: "vars (s_graph fc_state) ''b'' = Some (activation [-1, 3, 3, 3])"
    by (simp add: fc_state_def fc_graph_vars)
  have r: "4 \<le> length (var_shape (activation [-1, 3, 3, 3]))" by (simp add: activation_def)
  have e: "expand_idxs (var_shape (activation [-1, 3, 3, 3]) ! 2 * var_shape (activation [-1, 3, 3, 3]) ! 3) [0, 2]
           = [0, 1, 2, 3, 4, 5, 6, 7, 8, 18, 19, 20, 21, 22, 23, 24, 25, 26]"
    by code_simp
  have 1: "prune_ops 3 False False [fc_mul_op] [0, 2] [fc_mul_op] fc_state
     = prune_parameter_by_idx [''fc_w'']
         [0, 1, 2, 3, 4, 5, 6, 7, 8, 18, 19, 20, 21, 22, 23, 24, 25, 26] 0 False False fc_state"
    using mul_rule_expands_channels [OF t fc_graph_operands v r, of 3 False False "[fc_mul_op]" "[0, 2]" "[]"]
    by (simp only: e fc_graph_accumulator prune_ops.simps(1) sum_case_id)
  have 2: "(case prune_parameter_by_idx [''fc_w'']
         [0, 1, 2, 3, 4, 5, 6, 7, 8, 18, 19, 20, 21, 22, 23, 24, 25, 26] 0 False False fc_state of
         Inl e \<Rightarrow> None
       | Inr st \<Rightarrow> s_scope st ''fc_w'')
       = Some \<lparr>shape = [9, 2], data = [18, 19, 20, 21, 22, 23, 24, 25, 26, 27, 28, 29, 30, 31, 32, 33, 34, 35]\<rparr>"
    by code_simp
  show ?thesis using 1 2 by simp
qed

subsection \<open>The concatenation rule\<close>













subsection \<open>The registry of pruned names\<close>

lemma registry_Inr:
  "registry st axis = Inr names \<longleftrightarrow>
   axis < length (pruned_list (s_self st)) \<and> names = pruned_list (s_self st) ! axis"
  by (auto simp: registry_def)

lemma registry_append_list:
  "pruned_list (s_self (registry_append st axis name))
   = (pruned_list (s_self st))[axis := pruned_list (s_self st) ! axis @ [name]]"
  by (simp add: registry_append_def)

lemma registry_append_other [simp]:
  "s_scope (registry_append st axis name) = s_scope st"
  "s_graph (registry_append st axis name) = s_graph st"
  by (simp_all add: registry_append_def)

lemma backup_value_other [simp]:
  "s_scope (backup_value st name b) = s_scope st"
  "s_graph (backup_value st name b) = s_graph st"
  "s_self (backup_value st name b) = s_self st"
  by (simp_all add: backup_value_def split: option.splits)

lemma backup_shape_other [simp]:
  "s_scope (backup_shape st name b) = s_scope st"
  "s_graph (backup_shape st name b) = s_graph st"
  "s_self (backup_shape st name b) = s_self st"
  by (simp_all add: backup_shape_def split: option.splits)

lemma store_pruned_Inr:
  assumes "store_pruned param pruned axis st = Inr st'"
  shows "pruned_list (s_self st') = (pruned_list (s_self st))[axis := pruned_list (s_self st) ! axis @ [param]]"
    and "s_scope st' = (s_scope st)(param \<mapsto> pruned)"
  using assms
  by (auto simp: store_pruned_def Let_def registry_append_list split: option.splits if_splits)

lemma list_update_append_twice:
  "axis < length pl \<Longrightarrow> (pl[axis := pl ! axis @ [a]])[axis := pl[axis := pl ! axis @ [a]] ! axis @ as]
     = pl[axis := pl ! axis @ a # as]"
  by simp

lemma prune_arrays_both:
  "prune_arrays ps idxs axis lazy st = Inr st' \<Longrightarrow> axis < length (pruned_list (s_self st)) \<Longrightarrow>
   pruned_list (s_self st') = (pruned_list (s_self st))[axis := pruned_list (s_self st) ! axis @ ps]
   \<and> (\<forall>v. v \<notin> set ps \<longrightarrow> s_scope st' v = s_scope st v)"
proof (induction ps arbitrary: st)
  case Nil
  then show ?case by simp
next
  case (Cons p ps)
  from Cons.prems(1) obtain t pruned st2 where t: "s_scope st p = Some t"
    and pt: "prune_tensor t idxs axis lazy = Inr pruned"
    and sp: "store_pruned p pruned axis (backup_value st p (Value_backup t)) = Inr st2"
    and rest: "prune_arrays ps idxs axis lazy st2 = Inr st'"
    by (auto simp: Let_def split: option.splits sum.splits)
  have pl2: "pruned_list (s_self st2) = (pruned_list (s_self st))[axis := pruned_list (s_self st) ! axis @ [p]]"
    using store_pruned_Inr(1) [OF sp] by simp
  have sc2: "s_scope st2 = (s_scope st)(p \<mapsto> pruned)"
    using store_pruned_Inr(2) [OF sp] by simp
  have len2: "axis < length (pruned_list (s_self st2))" using pl2 Cons.prems(2) by simp
  have ih: "pruned_list (s_self st') = (pruned_list (s_self st2))[axis := pruned_list (s_self st2) ! axis @ ps]
     \<and> (\<forall>v. v \<notin> set ps \<longrightarrow> s_scope st' v = s_scope st2 v)"
    using rest len2 by (rule Cons.IH)
  have "pruned_list (s_self st') = (pruned_list (s_self st))[axis := pruned_list (s_self st) ! axis @ p # ps]"
    using ih pl2 Cons.prems(2) by simp
  moreover have "\<forall>v. v \<notin> set (p # ps) \<longrightarrow> s_scope st' v = s_scope st v"
    using ih sc2 by simp
  ultimately show ?case by simp
qed

lemmas prune_arrays_Inr = prune_arrays_both [THEN conjunct1] prune_arrays_both [THEN conjunct2]

lemma prune_arrays_first:
  assumes "prune_arrays (p # ps) idxs axis lazy st = Inr st'" "axis < length (pruned_list (s_self st))"
    and "p \<notin> set ps"
  shows "\<exists>t t'. s_scope st p = Some t \<and> prune_tensor t idxs axis lazy = Inr t' \<and> s_scope st' p = Some t'"
proof -
  from assms(1) obtain t pruned st2 where t: "s_scope st p = Some t"
    and pt: "prune_tensor t idxs axis lazy = Inr pruned"
    and sp: "store_pruned p pruned axis (backup_value st p (Value_backup t)) = Inr st2"
    and rest: "prune_arrays ps idxs axis lazy st2 = Inr st'"
    by (auto simp: Let_def split: option.splits sum.splits)
  have pl2: "pruned_list (s_self st2) = (pruned_list (s_self st))[axis := pruned_list (s_self st) ! axis @ [p]]"
    using store_pruned_Inr(1) [OF sp] by simp
  have len2: "axis < length (pruned_list (s_self st2))" using pl2 assms(2) by simp
  have "s_scope st' p = s_scope st2 p" using prune_arrays_Inr(2) [OF rest len2] assms(3) by simp
  then show ?thesis using t pt store_pruned_Inr(2) [OF sp] by simp
qed

lemma set_shape_other: "v \<noteq> p \<Longrightarrow> vars (set_shape graph p s) v = vars graph v"
  by (simp add: set_shape_def split: option.splits)

lemma set_shape_same:
  "vars graph p = Some x \<Longrightarrow> vars (set_shape graph p s) p = Some (x\<lparr>var_shape := s\<rparr>)"
  by (simp add: set_shape_def)

lemma shrink_shapes_both:
  "shrink_shapes ps axis n st = Inr st' \<Longrightarrow> axis < length (pruned_list (s_self st)) \<Longrightarrow>
   pruned_list (s_self st') = (pruned_list (s_self st))[axis := pruned_list (s_self st) ! axis @ ps]
   \<and> (\<forall>v. v \<notin> set ps \<longrightarrow> vars (s_graph st') v = vars (s_graph st) v)
   \<and> s_scope st' = s_scope st"
proof (induction ps arbitrary: st)
  case Nil
  then show ?case by simp
next
  case (Cons p ps)
  from Cons.prems(1) obtain x where x: "vars (s_graph st) p = Some x"
    and ax: "\<not> length (var_shape x) \<le> axis"
    by (auto simp: Let_def split: option.splits if_splits)
  define st3 where "st3 = registry_append
     ((backup_value st p (Shape_backup (var_shape x)))
        \<lparr>s_graph := set_shape (s_graph (backup_value st p (Shape_backup (var_shape x)))) p
            ((var_shape x)[axis := var_shape x ! axis - n])\<rparr>) axis p"
  have rest: "shrink_shapes ps axis n st3 = Inr st'"
    using Cons.prems(1) x ax by (simp add: Let_def st3_def)
  have pl3: "pruned_list (s_self st3) = (pruned_list (s_self st))[axis := pruned_list (s_self st) ! axis @ [p]]"
    by (simp add: st3_def registry_append_list)
  have len3: "axis < length (pruned_list (s_self st3))" using pl3 Cons.prems(2) by simp
  have g3: "s_graph st3 = set_shape (s_graph st) p ((var_shape x)[axis := var_shape x ! axis - n])"
    by (simp add: st3_def)
  have sc3: "s_scope st3 = s_scope st" by (simp add: st3_def)
  have ih: "pruned_list (s_self st') = (pruned_list (s_self st3))[axis := pruned_list (s_self st3) ! axis @ ps]
     \<and> (\<forall>v. v \<notin> set ps \<longrightarrow> vars (s_graph st') v = vars (s_graph st3) v)
     \<and> s_scope st' = s_scope st3"
    using rest len3 by (rule Cons.IH)
  have "pruned_list (s_self st') = (pruned_list (s_self st))[axis := pruned_list (s_self st) ! axis @ p # ps]"
    using ih pl3 Cons.prems(2) by simp
  moreover have "\<forall>v. v \<notin> set (p # ps) \<longrightarrow> vars (s_graph st') v = vars (s_graph st) v"
    using ih g3 by (simp add: set_shape_other)
  moreover have "s_scope st' = s_scope st" using ih sc3 by simp
  ultimately show ?case by simp
qed

lemmas shrink_shapes_Inr = shrink_shapes_both [THEN conjunct1]
  shrink_shapes_both [THEN conjunct2, THEN conjunct1]
  shrink_shapes_both [THEN conjunct2, THEN conjunct2]

lemma shrink_shapes_first:
  assumes "shrink_shapes (p # ps) axis n st = Inr st'" "axis < length (pruned_list (s_self st))"
    and "p \<notin> set ps"
  shows "\<exists>x. vars (s_graph st) p = Some x
           \<and> map_option var_shape (vars (s_graph st') p)
               = Some ((var_shape x)[axis := var_shape x ! axis - n])"
proof -
  from assms(1) obtain x where x: "vars (s_graph st) p = Some x"
    and ax: "\<not> length (var_shape x) \<le> axis"
    by (auto simp: Let_def split: option.splits if_splits)
  define st3 where "st3 = registry_append
     ((backup_value st p (Shape_backup (var_shape x)))
        \<lparr>s_graph := set_shape (s_graph (backup_value st p (Shape_backup (var_shape x)))) p
            ((var_shape x)[axis := var_shape x ! axis - n])\<rparr>) axis p"
  have rest: "shrink_shapes ps axis n st3 = Inr st'"
    using assms(1) x ax by (simp add: Let_def st3_def)
  have len3: "axis < length (pruned_list (s_self st3))"
    using assms(2) by (simp add: st3_def registry_append_list)
  have g3: "vars (s_graph st3) p = Some (x\<lparr>var_shape := (var_shape x)[axis := var_shape x ! axis - n]\<rparr>)"
    using x by (simp add: st3_def set_shape_same)
  have "vars (s_graph st') p = vars (s_graph st3) p"
    using shrink_shapes_Inr(2) [OF rest len3] assms(3) by simp
  then show ?thesis using x g3 by simp
qed

lemma prune_parameter_by_idx_first:
  assumes "registry st axis = Inr names" "p0 \<notin> set names" "p0 \<notin> set accs"
    and "prune_parameter_by_idx (p0 # accs) idxs axis lazy only_graph st = Inr st'"
  shows "registry st' axis = Inr (names @ p0 # accs)"
    and "\<not> only_graph \<longrightarrow>
           (\<exists>t t'. s_scope st p0 = Some t \<and> prune_tensor t idxs axis lazy = Inr t'
                    \<and> s_scope st' p0 = Some t')"
    and "only_graph \<longrightarrow>
           (\<exists>x. vars (s_graph st) p0 = Some x
              \<and> map_option var_shape (vars (s_graph st') p0)
                  = Some ((var_shape x)[axis := var_shape x ! axis - int (length idxs)]))
           \<and> s_scope st' = s_scope st"
proof -
  have len: "axis < length (pruned_list (s_self st))"
    and names: "names = pruned_list (s_self st) ! axis"
    using assms(1) by (simp_all add: registry_Inr)
  show "registry st' axis = Inr (names @ p0 # accs)"
  proof (cases only_graph)
    case True
    then have "shrink_shapes (p0 # accs) axis (int (length idxs)) st = Inr st'"
      using assms by (simp add: prune_parameter_by_idx_def)
    then have "pruned_list (s_self st')
        = (pruned_list (s_self st))[axis := pruned_list (s_self st) ! axis @ p0 # accs]"
      using len by (rule shrink_shapes_Inr(1))
    then show ?thesis using len names by (simp add: registry_Inr)
  next
    case False
    then have "prune_arrays (p0 # accs) idxs axis lazy st = Inr st'"
      using assms by (simp add: prune_parameter_by_idx_def)
    then have "pruned_list (s_self st')
        = (pruned_list (s_self st))[axis := pruned_list (s_self st) ! axis @ p0 # accs]"
      using len by (rule prune_arrays_Inr(1))
    then show ?thesis using len names by (simp add: registry_Inr)
  qed
  show "\<not> only_graph \<longrightarrow>
           (\<exists>t t'. s_scope st p0 = Some t \<and> prune_tensor t idxs axis lazy = Inr t'
                    \<and> s_scope st' p0 = Some t')"
  proof
    assume "\<not> only_graph"
    then have "prune_arrays (p0 # accs) idxs axis lazy st = Inr st'"
      using assms by (simp add: prune_parameter_by_idx_def)
    then show "\<exists>t t'. s_scope st p0 = Some t \<and> prune_tensor t idxs axis lazy = Inr t'
                    \<and> s_scope st' p0 = Some t'"
      using len assms(3) by (rule prune_arrays_first)
  qed
  show "only_graph \<longrightarrow>
           (\<exists>x. vars (s_graph st) p0 = Some x
              \<and> map_option var_shape (vars (s_graph st') p0)
                  = Some ((var_shape x)[axis := var_shape x ! axis - int (length idxs)]))
           \<and> s_scope st' = s_scope st"
  proof
    assume "only_graph"
    then have s: "shrink_shapes (p0 # accs) axis (int (length idxs)) st = Inr st'"
      using assms by (simp add: prune_parameter_by_idx_def)
    show "(\<exists>x. vars (s_graph st) p0 = Some x
              \<and> map_option var_shape (vars (s_graph st') p0)
                  = Some ((var_shape x)[axis := var_shape x ! axis - int (length idxs)]))
           \<and> s_scope st' = s_scope st"
      using shrink_shapes_first [OF s len assms(3)] shrink_shapes_Inr(3) [OF s len] by simp
  qed
qed

lemma prune_parameter_by_idx_skip:
  "registry st axis = Inr names \<Longrightarrow> p0 \<in> set names \<Longrightarrow>
   prune_parameter_by_idx (p0 # accs) idxs axis lazy only_graph st = Inr st"
  by (simp add: prune_parameter_by_idx_def)

lemma prune_forgets_registry:
  "prune (w\<lparr>w_self := (w_self w)\<lparr>pruned_list := pl\<rparr>\<rparr>) program params ratios depth lazy only_graph
     param_backup param_shape_backup
   = prune w program params ratios depth lazy only_graph param_backup param_shape_backup"
proof -
  have e: "world_of (w\<lparr>w_self := (w_self w)\<lparr>pruned_list := pl\<rparr>\<rparr>) = world_of w"
    by (rule ext) (simp add: world_of_def)
  have l: "length (w_programs (w\<lparr>w_self := (w_self w)\<lparr>pruned_list := pl\<rparr>\<rparr>)) = length (w_programs w)"
    by simp
  show ?thesis unfolding prune_def e l by (simp add: Let_def)
qed

text \<open>
  Claim C7. With \<open>names\<close> the registry of an axis: a request for a registered name
  returns the state unchanged, in \<open>_prune_parameter_by_idx\<close> and (for axis 0, with a
  \<open>Skip\<close> line in the log) in the loop of \<open>_prune_parameters\<close>. A successful request for
  an unregistered name prunes its array in the scope (in graph-only mode: shrinks its
  shape in the graph and leaves the scope alone), appends the name and its accumulators
  to the registry of the axis, and makes every later request for the name at this axis
  return the state unchanged. \<open>prune\<close> does not depend on the registry that an earlier
  call left in the pruner.
\<close>

theorem pruning_once_per_name_and_axis:
  assumes "registry st axis = Inr names"
  shows "(p0 \<in> set names \<longrightarrow>
            prune_parameter_by_idx (p0 # accs) idxs axis lazy only_graph st = Inr st)
       \<and> (p0 \<in> set names \<longrightarrow> axis = 0 \<longrightarrow>
            prune_requests depth ((p0, ratio) # rest) lazy only_graph st
            = prune_requests depth rest lazy only_graph (st\<lparr>s_log := s_log st @ [Skip p0]\<rparr>))
       \<and> (p0 \<notin> set names \<longrightarrow> p0 \<notin> set accs \<longrightarrow>
            prune_parameter_by_idx (p0 # accs) idxs axis lazy only_graph st = Inr st' \<longrightarrow>
              registry st' axis = Inr (names @ p0 # accs)
            \<and> (\<not> only_graph \<longrightarrow>
                 (\<exists>t t'. s_scope st p0 = Some t \<and> prune_tensor t idxs axis lazy = Inr t'
                          \<and> s_scope st' p0 = Some t'))
            \<and> (only_graph \<longrightarrow>
                 (\<exists>x. vars (s_graph st) p0 = Some x
                    \<and> map_option var_shape (vars (s_graph st') p0)
                        = Some ((var_shape x)[axis := var_shape x ! axis - int (length idxs)]))
                 \<and> s_scope st' = s_scope st)
            \<and> prune_parameter_by_idx (p0 # accs') idxs' axis lazy' only_graph' st' = Inr st')
       \<and> prune (w\<lparr>w_self := (w_self w)\<lparr>pruned_list := pl\<rparr>\<rparr>) program params ratios depth lazy
            only_graph param_backup param_shape_backup
          = prune w program params ratios depth lazy only_graph param_backup param_shape_backup"
proof -
  have 1: "p0 \<in> set names \<longrightarrow>
            prune_parameter_by_idx (p0 # accs) idxs axis lazy only_graph st = Inr st"
    using assms by (simp add: prune_parameter_by_idx_skip)
  have 2: "p0 \<in> set names \<longrightarrow> axis = 0 \<longrightarrow>
            prune_requests depth ((p0, ratio) # rest) lazy only_graph st
            = prune_requests depth rest lazy only_graph (st\<lparr>s_log := s_log st @ [Skip p0]\<rparr>)"
  proof (intro impI)
    assume "p0 \<in> set names" "axis = 0"
    moreover from this have "registry st 0 = Inr names" using assms by simp
    ultimately show "prune_requests depth ((p0, ratio) # rest) lazy only_graph st
            = prune_requests depth rest lazy only_graph (st\<lparr>s_log := s_log st @ [Skip p0]\<rparr>)"
      by simp
  qed
  have 3: "p0 \<notin> set names \<longrightarrow> p0 \<notin> set accs \<longrightarrow>
            prune_parameter_by_idx (p0 # accs) idxs axis lazy only_graph st = Inr st' \<longrightarrow>
              registry st' axis = Inr (names @ p0 # accs)
            \<and> (\<not> only_graph \<longrightarrow>
                 (\<exists>t t'. s_scope st p0 = Some t \<and> prune_tensor t idxs axis lazy = Inr t'
                          \<and> s_scope st' p0 = Some t'))
            \<and> (only_graph \<longrightarrow>
                 (\<exists>x. vars (s_graph st) p0 = Some x
                    \<and> map_option var_shape (vars (s_graph st') p0)
                        = Some ((var_shape x)[axis := var_shape x ! axis - int (length idxs)]))
                 \<and> s_scope st' = s_scope st)
            \<and> prune_parameter_by_idx (p0 # accs') idxs' axis lazy' only_graph' st' = Inr st'"
  proof (intro impI)
    assume a: "p0 \<notin> set names" "p0 \<notin> set accs"
      "prune_parameter_by_idx (p0 # accs) idxs axis lazy only_graph st = Inr st'"
    note f = prune_parameter_by_idx_first [OF assms a]
    have "prune_parameter_by_idx (p0 # accs') idxs' axis lazy' only_graph' st' = Inr st'"
      using f(1) by (intro prune_parameter_by_idx_skip [where names = "names @ p0 # accs"]) simp_all
    then show "registry st' axis = Inr (names @ p0 # accs)
            \<and> (\<not> only_graph \<longrightarrow>
                 (\<exists>t t'. s_scope st p0 = Some t \<and> prune_tensor t idxs axis lazy = Inr t'
                          \<and> s_scope st' p0 = Some t'))
            \<and> (only_graph \<longrightarrow>
                 (\<exists>x. vars (s_graph st) p0 = Some x
                    \<and> map_option var_shape (vars (s_graph st') p0)
                        = Some ((var_shape x)[axis := var_shape x ! axis - int (length idxs)]))
                 \<and> s_scope st' = s_scope st)
            \<and> prune_parameter_by_idx (p0 # accs') idxs' axis lazy' only_graph' st' = Inr st'"
      using f by blast
  qed
  show ?thesis using 1 2 3 prune_forgets_registry by blast
qed

theorem pruning_once_per_name_and_axis_witness:
  "\<exists>st'. prune_parameter_by_idx [''wd''] [5, 7] 1 False False concat_state = Inr st'
      \<and> registry st' 1 = Inr [''wd'']
      \<and> s_scope st' ''wd''
          = Some \<lparr>shape = [1, 13, 1, 1], data = [0, 1, 2, 3, 4, 6, 8, 9, 10, 11, 12, 13, 14]\<rparr>
      \<and> prune_parameter_by_idx [''wd''] [0] 1 False False st' = Inr st'"
proof -
  have r: "registry concat_state 1 = Inr []" by (simp add: registry_def concat_state_def)
  have "(case prune_parameter_by_idx [''wd''] [5, 7] 1 False False concat_state of
           Inl e \<Rightarrow> None
         | Inr st \<Rightarrow> s_scope st ''wd'')
        = Some \<lparr>shape = [1, 13, 1, 1], data = [0, 1, 2, 3, 4, 6, 8, 9, 10, 11, 12, 13, 14]\<rparr>"
    by code_simp
  then obtain st' where s: "prune_parameter_by_idx [''wd''] [5, 7] 1 False False concat_state = Inr st'"
    and sc: "s_scope st' ''wd''
          = Some \<lparr>shape = [1, 13, 1, 1], data = [0, 1, 2, 3, 4, 6, 8, 9, 10, 11, 12, 13, 14]\<rparr>"
    by (cases "prune_parameter_by_idx [''wd''] [5, 7] 1 False False concat_state") auto
  have "registry st' 1 = Inr ([] @ [''wd''])
        \<and> prune_parameter_by_idx [''wd''] [0] 1 False False st' = Inr st'"
    using pruning_once_per_name_and_axis [OF r, where ?p0.0 = "''wd''" and accs = "[]"
        and idxs = "[5, 7]" and lazy = False and only_graph = False and st' = st'
        and accs' = "[]" and idxs' = "[0]" and lazy' = False and only_graph' = False] s
    by simp
  then show ?thesis using s sc by simp
qed

subsection \<open>The whole call\<close>

lemma set_attr_same [simp]:
  "op_type (set_attr op a v) = op_type op"
  "inputs (set_attr op a v) = inputs op"
  "attrs (set_attr op a v) a = Some v"
  by (simp_all add: set_attr_def)

lemma filter_channels_set_attr [simp]:
  "filter_channels vs (set_attr op a v) = filter_channels vs op"
  by (simp add: filter_channels_def inputs_of_def)

lemma filter_channels_Inr:
  "filter_channels vs op = Inr n \<Longrightarrow>
   \<exists>f fs x s. inputs_of op ''Filter'' = f # fs \<and> vs f = Some x \<and> var_shape x = n # s"
  by (auto simp: filter_channels_def split: list.splits option.splits)

lemma fix_groups_Inr:
  "fix_groups vs os = Inr os' \<Longrightarrow>
   \<forall>op\<in>set os'. op_type op = ''depthwise_conv2d'' \<or> op_type op = ''depthwise_conv2d_grad'' \<longrightarrow>
      (\<exists>n. filter_channels vs op = Inr n \<and> attrs op ''groups'' = Some n)"
proof (induction os arbitrary: os')
  case Nil
  then show ?case by simp
next
  case (Cons a os)
  show ?case
  proof (cases "op_type a = ''depthwise_conv2d'' \<or> op_type a = ''depthwise_conv2d_grad''")
    case True
    from Cons.prems True obtain n r where n: "filter_channels vs a = Inr n"
      and r: "fix_groups vs os = Inr r" and o: "os' = set_attr a ''groups'' n # r"
      by (auto split: sum.splits prod.splits)
    have "\<forall>op\<in>set r. op_type op = ''depthwise_conv2d'' \<or> op_type op = ''depthwise_conv2d_grad'' \<longrightarrow>
      (\<exists>n. filter_channels vs op = Inr n \<and> attrs op ''groups'' = Some n)"
      using r by (rule Cons.IH)
    then show ?thesis using n o by simp
  next
    case False
    from Cons.prems False obtain r where r: "fix_groups vs os = Inr r" and o: "os' = a # r"
      by (auto split: sum.splits prod.splits)
    have "\<forall>op\<in>set r. op_type op = ''depthwise_conv2d'' \<or> op_type op = ''depthwise_conv2d_grad'' \<longrightarrow>
      (\<exists>n. filter_channels vs op = Inr n \<and> attrs op ''groups'' = Some n)"
      using r by (rule Cons.IH)
    then show ?thesis using False o by simp
  qed
qed

lemma prune_Inr:
  assumes "prune w program params ratios depth lazy only_graph param_backup param_shape_backup
           = (w', Inr (new, b1, b2))"
  shows "\<exists>(st1 :: prune_state) ops1. new = length (w_programs w) \<and> program < length (w_programs w)
           \<and> fix_groups (vars (s_graph st1)) (ops (s_graph st1)) = Inr ops1
           \<and> w_programs w' = w_programs w @ [(s_graph st1)\<lparr>ops := ops1\<rparr>]"
proof -
  define st0 where "st0 = \<lparr>s_self = (w_self w)\<lparr>pruned_list := []\<rparr>,
     s_graph = w_programs w ! program, s_scope = w_scope w,
     s_param_backup = (if param_backup then Some Map.empty else None),
     s_param_shape_backup = (if param_shape_backup then Some Map.empty else None),
     s_log = w_log w\<rparr>"
  have lt: "program < length (w_programs w)"
    using assms by (auto simp: prune_def Let_def split: if_splits)
  have eq: "(case prune_parameters depth params ratios lazy only_graph st0 of
                Inl (e, st1) \<Rightarrow> (world_of w st1, Inl e)
              | Inr st1 \<Rightarrow>
                  (case fix_groups (vars (s_graph st1)) (ops (s_graph st1)) of
                     Inl (e, ops1) \<Rightarrow>
                       (world_of w (st1\<lparr>s_graph := (s_graph st1)\<lparr>ops := ops1\<rparr>\<rparr>), Inl e)
                   | Inr ops1 \<Rightarrow>
                       (world_of w (st1\<lparr>s_graph := (s_graph st1)\<lparr>ops := ops1\<rparr>\<rparr>),
                        Inr (length (w_programs w), s_param_backup st1, s_param_shape_backup st1))))
            = (w', Inr (new, b1, b2))"
    using assms lt unfolding prune_def st0_def Let_def by simp
  obtain st1 where pp: "prune_parameters depth params ratios lazy only_graph st0 = Inr st1"
    using eq by (cases "prune_parameters depth params ratios lazy only_graph st0")
      (auto split: prod.splits)
  obtain ops1 where fg: "fix_groups (vars (s_graph st1)) (ops (s_graph st1)) = Inr ops1"
    using eq pp by (cases "fix_groups (vars (s_graph st1)) (ops (s_graph st1))")
      (auto split: prod.splits)
  have "w' = world_of w (st1\<lparr>s_graph := (s_graph st1)\<lparr>ops := ops1\<rparr>\<rparr>)" "new = length (w_programs w)"
    using eq pp fg by simp_all
  then have "new = length (w_programs w) \<and> program < length (w_programs w)
           \<and> fix_groups (vars (s_graph st1)) (ops (s_graph st1)) = Inr ops1
           \<and> w_programs w' = w_programs w @ [(s_graph st1)\<lparr>ops := ops1\<rparr>]"
    using lt fg by (simp add: world_of_def)
  then show ?thesis by blast
qed

text \<open>
  Claim C6. When \<open>prune\<close> returns, every depthwise convolution of the returned program
  (and every \<open>depthwise_conv2d_grad\<close>) has a first \<open>Filter\<close> input whose shape in that
  program starts with the value of the operator's \<open>groups\<close> attribute.
\<close>

theorem depthwise_groups_after_prune:
  assumes "prune w program params ratios depth lazy only_graph param_backup param_shape_backup
           = (w', Inr (new, b1, b2))"
  shows "new < length (w_programs w')
       \<and> (\<forall>op\<in>set (ops (w_programs w' ! new)).
             op_type op = ''depthwise_conv2d'' \<or> op_type op = ''depthwise_conv2d_grad'' \<longrightarrow>
               (\<exists>f fs x n s. inputs_of op ''Filter'' = f # fs
                  \<and> vars (w_programs w' ! new) f = Some x
                  \<and> var_shape x = n # s
                  \<and> attrs op ''groups'' = Some n))"
proof -
  obtain st1 :: prune_state and ops1 where new: "new = length (w_programs w)"
    and f: "fix_groups (vars (s_graph st1)) (ops (s_graph st1)) = Inr ops1"
    and p: "w_programs w' = w_programs w @ [(s_graph st1)\<lparr>ops := ops1\<rparr>]"
    using prune_Inr [OF assms] by blast
  have g: "w_programs w' ! new = (s_graph st1)\<lparr>ops := ops1\<rparr>" using new p by simp
  have "\<forall>op\<in>set ops1. op_type op = ''depthwise_conv2d'' \<or> op_type op = ''depthwise_conv2d_grad'' \<longrightarrow>
      (\<exists>n. filter_channels (vars (s_graph st1)) op = Inr n \<and> attrs op ''groups'' = Some n)"
    using f by (rule fix_groups_Inr)
  then have "\<forall>op\<in>set ops1. op_type op = ''depthwise_conv2d'' \<or> op_type op = ''depthwise_conv2d_grad'' \<longrightarrow>
      (\<exists>f fs x n s. inputs_of op ''Filter'' = f # fs \<and> vars (s_graph st1) f = Some x
          \<and> var_shape x = n # s \<and> attrs op ''groups'' = Some n)"
    using filter_channels_Inr by blast
  then show ?thesis using g new p by simp
qed

lemma depthwise_prune_value:
  "(case prune depthwise_world 0 [''w''] [1 / 2] 3 False False False False of
      (w', r) \<Rightarrow>
        (case r of Inl e \<Rightarrow> None | Inr (new, b1, b2) \<Rightarrow> Some new,
         map op_type (ops (w_programs w' ! 1)),
         map (\<lambda>op. inputs_of op ''Filter'') (ops (w_programs w' ! 1)),
         map_option var_shape (vars (w_programs w' ! 1) ''dw'')))
   = (Some 1, [''conv2d'', ''depthwise_conv2d''], [[''w''], [''dw'']], Some [2, 1, 1, 1])"
  by code_simp

theorem depthwise_groups_after_prune_witness:
  "\<exists>w' b1 b2. prune depthwise_world 0 [''w''] [1 / 2] 3 False False False False = (w', Inr (1, b1, b2))
      \<and> map op_type (ops (w_programs w' ! 1)) = [''conv2d'', ''depthwise_conv2d'']
      \<and> map_option var_shape (vars (w_programs w' ! 1) ''dw'') = Some [2, 1, 1, 1]
      \<and> attrs (ops (w_programs w' ! 1) ! 1) ''groups'' = Some 2"
proof -
  obtain w' r where p: "prune depthwise_world 0 [''w''] [1 / 2] 3 False False False False = (w', r)"
    by (cases "prune depthwise_world 0 [''w''] [1 / 2] 3 False False False False") auto
  have v: "(case r of Inl e \<Rightarrow> None | Inr (new, b1, b2) \<Rightarrow> Some new) = Some 1"
    "map op_type (ops (w_programs w' ! 1)) = [''conv2d'', ''depthwise_conv2d'']"
    "map (\<lambda>op. inputs_of op ''Filter'') (ops (w_programs w' ! 1)) = [[''w''], [''dw'']]"
    "map_option var_shape (vars (w_programs w' ! 1) ''dw'') = Some [2, 1, 1, 1]"
    using depthwise_prune_value p by simp_all
  from v(1) obtain b1 b2 where r: "r = Inr (1, b1, b2)"
    by (cases r) (auto split: prod.splits)
  have len: "length (ops (w_programs w' ! 1)) = 2"
    using arg_cong [OF v(2), of length] by simp
  let ?op = "ops (w_programs w' ! 1) ! 1"
  have mem: "?op \<in> set (ops (w_programs w' ! 1))" using len by simp
  have ty: "op_type ?op = ''depthwise_conv2d''"
    using arg_cong [OF v(2), of "\<lambda>l. l ! 1"] len by simp
  have fi: "inputs_of ?op ''Filter'' = [''dw'']"
    using arg_cong [OF v(3), of "\<lambda>l. l ! 1"] len by simp
  obtain f fs x n s where "inputs_of ?op ''Filter'' = f # fs"
    "vars (w_programs w' ! 1) f = Some x" "var_shape x = n # s" "attrs ?op ''groups'' = Some n"
    using depthwise_groups_after_prune [OF p [unfolded r]] mem ty by blast
  then have "attrs ?op ''groups'' = Some 2" using fi v(4) by auto
  then show ?thesis using p r v by auto
qed

text \<open>
  Claim C10. \<open>prune\<close> leaves every program of the store as it was, the caller's program
  among them. For a valid program reference the store grows by exactly one program, the
  clone; the reference that \<open>prune\<close> returns is the clone's, never the caller's; and
  the pruned arrays are those of the scope that comes back in the world.
\<close>

theorem prune_leaves_caller_program:
  assumes "prune w program params ratios depth lazy only_graph param_backup param_shape_backup
           = (w', r)"
  shows "take (length (w_programs w)) (w_programs w') = w_programs w
       \<and> (program < length (w_programs w) \<longrightarrow>
            w_programs w' ! program = w_programs w ! program
            \<and> length (w_programs w') = Suc (length (w_programs w)))
       \<and> (\<forall>new b1 b2. r = Inr (new, b1, b2) \<longrightarrow>
            new = length (w_programs w) \<and> new \<noteq> program \<and> new < length (w_programs w'))"
proof (cases "program < length (w_programs w)")
  case False
  then have "w' = w\<lparr>w_self := (w_self w)\<lparr>pruned_list := []\<rparr>\<rparr>" "r = Inl AttributeError"
    using assms by (simp_all add: prune_def Let_def)
  then show ?thesis using False by simp
next
  case True
  have "\<exists>st :: prune_state. w' = world_of w st"
    using assms True
    by (auto simp: prune_def Let_def split: sum.splits prod.splits)
  then obtain st :: prune_state where w': "w' = world_of w st" by blast
  have 1: "take (length (w_programs w)) (w_programs w') = w_programs w"
    by (simp add: w' world_of_def)
  have 2: "w_programs w' ! program = w_programs w ! program
           \<and> length (w_programs w') = Suc (length (w_programs w))"
    using True by (simp add: w' world_of_def nth_append)
  have 3: "\<forall>new b1 b2. r = Inr (new, b1, b2) \<longrightarrow>
            new = length (w_programs w) \<and> new \<noteq> program \<and> new < length (w_programs w')"
  proof (intro allI impI)
    fix new b1 b2 assume "r = Inr (new, b1, b2)"
    then have "new = length (w_programs w)"
      using assms True
      by (auto simp: prune_def Let_def split: sum.splits prod.splits)
    then show "new = length (w_programs w) \<and> new \<noteq> program \<and> new < length (w_programs w')"
      using True 2 by simp
  qed
  show ?thesis using 1 2 3 by blast
qed

lemma depthwise_prune_shapes:
  "(case prune depthwise_world 0 [''w''] [1 / 2] 3 False False False False of
      (w', r) \<Rightarrow>
        (map_option var_shape (vars (w_programs w' ! 0) ''dw''),
         map_option var_shape (vars (w_programs w' ! 1) ''dw''),
         map_option shape (w_scope w' ''dw'')))
   = (Some [4, 1, 1, 1], Some [2, 1, 1, 1], Some [2, 1, 1, 1])"
  by code_simp

theorem prune_leaves_caller_program_witness:
  "\<exists>w' b1 b2. prune depthwise_world 0 [''w''] [1 / 2] 3 False False False False = (w', Inr (1, b1, b2))
      \<and> w_programs w' ! 0 = depthwise_graph
      \<and> length (w_programs w') = 2
      \<and> map_option var_shape (vars (w_programs w' ! 0) ''dw'') = Some [4, 1, 1, 1]
      \<and> map_option var_shape (vars (w_programs w' ! 1) ''dw'') = Some [2, 1, 1, 1]
      \<and> map_option shape (w_scope w' ''dw'') = Some [2, 1, 1, 1]"
proof -
  obtain w' r where p: "prune depthwise_world 0 [''w''] [1 / 2] 3 False False False False = (w', r)"
    by (cases "prune depthwise_world 0 [''w''] [1 / 2] 3 False False False False") auto
  have "(case r of Inl e \<Rightarrow> None | Inr (new, b1, b2) \<Rightarrow> Some new) = Some 1"
    using depthwise_prune_value p by simp
  then obtain b1 b2 where r: "r = Inr (1, b1, b2)"
    by (cases r) (auto split: prod.splits)
  have v: "map_option var_shape (vars (w_programs w' ! 0) ''dw'') = Some [4, 1, 1, 1]"
    "map_option var_shape (vars (w_programs w' ! 1) ''dw'') = Some [2, 1, 1, 1]"
    "map_option shape (w_scope w' ''dw'') = Some [2, 1, 1, 1]"
    using depthwise_prune_shapes p by simp_all
  have l: "0 < length (w_programs depthwise_world)" "w_programs depthwise_world ! 0 = depthwise_graph"
    by (simp_all add: depthwise_world_def)
  have "w_programs w' ! 0 = depthwise_graph \<and> length (w_programs w') = 2"
    using prune_leaves_caller_program [OF p] l by (simp add: depthwise_world_def)
  then show ?thesis using p r v by auto
qed







end
